theory Spec2Isabelle
  imports Complex_Main "HOL-Library.Monad_Syntax"
begin

section \<open>Mip chain generation of \<^verbatim>\<open>main.cpp\<close>\<close>

text \<open>
  The program builds a packed mip chain of a square RGBA image in one flat buffer.
  Conventions of the embedding:
  \<^item> \<^verbatim>\<open>IMAGE_SIZE()\<close> is a macro of the source (512 there). Every function that
    expands it takes the base width as its first argument \<open>W\<close>;
    \<open>IMAGE_SIZE\<close> below is the configured value.
  \<^item> \<^verbatim>\<open>size_t\<close> is taken to be 64 bits wide. The functions that compute the sizes
    and offsets of the chain are given twice. \<open>TotalPixelsMipped_loop64\<close>,
    \<open>TotalChannelsMipped64\<close> and \<open>GetMipInfo64\<close> compute as the code does: every sum and
    product wraps around modulo \<open>2 ^ 64\<close>. \<open>TotalPixelsMipped\<close>, \<open>TotalChannelsMipped\<close>
    and \<open>GetMipInfo\<close> are the same loops on \<open>nat\<close>, without wrap-around. The former are
    the latter modulo \<open>2 ^ 64\<close>, in the count and in the offset
    (\<open>TotalChannelsMipped64_mod\<close>, \<open>GetMipInfo64_mod\<close>), and
    both agree for every base width up to \<open>2 ^ 30\<close> (\<open>TotalChannelsMipped64_eq\<close>,
    \<open>GetMipInfo64_eq\<close>); for the configured width the chain has 1398100 elements
    (\<open>TotalChannelsMipped_IMAGE_SIZE\<close>). The functions on buffers use the values on
    \<open>nat\<close>: a buffer of \<open>TotalChannelsMipped W\<close> elements that exists has fewer than
    \<open>2 ^ 64\<close> elements, and every offset and index into it is at most its length
    (\<open>GetMipInfo_in_buffer\<close> and the checks of \<open>rd\<close> and \<open>wr\<close> below). Widths only
    shrink and loop counters stay below their bounds, so they never wrap.
    \<^verbatim>\<open>MakeMip\<close> is only called with \<open>mipIndex \<ge> 1\<close>, so the subtraction
    \<^verbatim>\<open>mipIndex - 1\<close> does not wrap either.
  \<^item> The buffer is a list of channel values. The three containers of \<^verbatim>\<open>main\<close> are
    accessed through \<^verbatim>\<open>operator[]\<close> only, which does not check the index: a read
    or write outside the buffer is undefined behaviour, and is the result \<open>None\<close> here.
  \<^item> \<^verbatim>\<open>ChannelType\<close> is \<^verbatim>\<open>float\<close>. The arithmetic on it is a parameter of the
    embedding (a record of the three operations the program uses), so that every general
    theorem holds whatever the rounding of the platform is.
\<close>

subsection \<open>Configuration\<close>

definition IMAGE_SIZE :: nat where
  "IMAGE_SIZE = 512"

subsection \<open>Channel arithmetic\<close>

record 'a float_ops =
  of_size :: "nat \<Rightarrow> 'a"
  fadd :: "'a \<Rightarrow> 'a \<Rightarrow> 'a"
  fdiv :: "'a \<Rightarrow> 'a \<Rightarrow> 'a"

text \<open>
  \<open>of_size ops n\<close> is the conversion \<^verbatim>\<open>float(n)\<close> of a non-negative integer (a
  \<^verbatim>\<open>size_t\<close>, the literals \<^verbatim>\<open>0\<close> and \<^verbatim>\<open>255\<close>, and the literal \<^verbatim>\<open>4.0f\<close>);
  \<open>fadd\<close> and \<open>fdiv\<close> are \<^verbatim>\<open>+\<close> and \<^verbatim>\<open>/\<close> on \<^verbatim>\<open>float\<close>. The value with all
  bytes zero, which \<^verbatim>\<open>memset\<close> writes, is \<^verbatim>\<open>+0.0f\<close>, that is \<open>of_size ops 0\<close>.

  \<open>exact_ops\<close> computes on rationals without rounding. The concrete evaluations below
  only meet multiples of \<open>1/8\<close> below 2048; single precision represents all of these, so
  that no operation rounds there and \<^verbatim>\<open>float\<close> gives the same values.
\<close>

definition exact_ops :: "rat float_ops" where
  "exact_ops = \<lparr>of_size = of_nat, fadd = (+), fdiv = (/)\<rparr>"

subsection \<open>Sizes of the chain\<close>

function TotalPixelsMipped_loop :: "nat \<Rightarrow> nat \<Rightarrow> nat" where
  "TotalPixelsMipped_loop ret sz =
     (if sz \<noteq> 0 then TotalPixelsMipped_loop (ret + sz * sz) (sz div 2) else ret)"
  by pat_completeness auto
termination
  by (relation "measure (\<lambda>(ret, sz). sz)") auto

definition TotalPixelsMipped :: "nat \<Rightarrow> nat" where
  "TotalPixelsMipped W = TotalPixelsMipped_loop 0 W"

definition TotalChannelsMipped :: "nat \<Rightarrow> nat" where
  "TotalChannelsMipped W = TotalPixelsMipped W * 4"

function NumMips_loop :: "nat \<Rightarrow> nat \<Rightarrow> nat" where
  "NumMips_loop ret sz =
     (if sz \<noteq> 0 then NumMips_loop (Suc ret) (sz div 2) else ret)"
  by pat_completeness auto
termination
  by (relation "measure (\<lambda>(ret, sz). sz)") auto

definition NumMips :: "nat \<Rightarrow> nat" where
  "NumMips W = NumMips_loop 0 W"

subsection \<open>Addressing a level\<close>

function GetMipInfo_loop :: "nat \<Rightarrow> nat \<Rightarrow> nat \<times> nat \<Rightarrow> nat \<times> nat" where
  "GetMipInfo_loop mipIndex desiredMipIndex (offset, width) =
     (if mipIndex < desiredMipIndex
      then GetMipInfo_loop (Suc mipIndex) desiredMipIndex (offset + width * width * 4, width div 2)
      else (offset, width))"
  by pat_completeness auto
termination
  by (relation "measure (\<lambda>(mipIndex, desiredMipIndex, s). desiredMipIndex - mipIndex)") auto

text \<open>The result is the pair of the two reference parameters \<open>(offset, width)\<close>.\<close>

definition GetMipInfo :: "nat \<Rightarrow> nat \<Rightarrow> nat \<times> nat" where
  "GetMipInfo W desiredMipIndex = GetMipInfo_loop 0 desiredMipIndex (0, W)"

subsection \<open>The sizes as \<^verbatim>\<open>size_t\<close> computes them\<close>

text \<open>
  Addition and multiplication of \<^verbatim>\<open>size_t\<close>, and the loops of \<^verbatim>\<open>TotalPixelsMipped\<close>,
  \<^verbatim>\<open>TotalChannelsMipped\<close> and \<^verbatim>\<open>GetMipInfo\<close> with them. The base width \<open>W\<close> is a
  value of \<^verbatim>\<open>size_t\<close>, below \<open>2 ^ 64\<close>.
\<close>

definition add64 :: "nat \<Rightarrow> nat \<Rightarrow> nat" where
  "add64 a b = (a + b) mod 2 ^ 64"

definition mul64 :: "nat \<Rightarrow> nat \<Rightarrow> nat" where
  "mul64 a b = (a * b) mod 2 ^ 64"

function TotalPixelsMipped_loop64 :: "nat \<Rightarrow> nat \<Rightarrow> nat" where
  "TotalPixelsMipped_loop64 ret sz =
     (if sz \<noteq> 0 then TotalPixelsMipped_loop64 (add64 ret (mul64 sz sz)) (sz div 2) else ret)"
  by pat_completeness auto
termination
  by (relation "measure (\<lambda>(ret, sz). sz)") auto

definition TotalPixelsMipped64 :: "nat \<Rightarrow> nat" where
  "TotalPixelsMipped64 W = TotalPixelsMipped_loop64 0 W"

definition TotalChannelsMipped64 :: "nat \<Rightarrow> nat" where
  "TotalChannelsMipped64 W = mul64 (TotalPixelsMipped64 W) 4"

function GetMipInfo_loop64 :: "nat \<Rightarrow> nat \<Rightarrow> nat \<times> nat \<Rightarrow> nat \<times> nat" where
  "GetMipInfo_loop64 mipIndex desiredMipIndex (offset, width) =
     (if mipIndex < desiredMipIndex
      then GetMipInfo_loop64 (Suc mipIndex) desiredMipIndex
             (add64 offset (mul64 (mul64 width width) 4), width div 2)
      else (offset, width))"
  by pat_completeness auto
termination
  by (relation "measure (\<lambda>(mipIndex, desiredMipIndex, s). desiredMipIndex - mipIndex)") auto

definition GetMipInfo64 :: "nat \<Rightarrow> nat \<Rightarrow> nat \<times> nat" where
  "GetMipInfo64 W desiredMipIndex = GetMipInfo_loop64 0 desiredMipIndex (0, W)"

subsection \<open>The buffer\<close>

text \<open>
  \<^verbatim>\<open>image[i]\<close> as an rvalue and as the target of an assignment. An index outside the
  buffer is the error \<open>None\<close>.
\<close>

definition rd :: "'a list \<Rightarrow> nat \<Rightarrow> 'a option" where
  "rd img i = (if i < length img then Some (img ! i) else None)"

definition wr :: "'a list \<Rightarrow> nat \<Rightarrow> 'a \<Rightarrow> 'a list option" where
  "wr img i v = (if i < length img then Some (img[i := v]) else None)"

text \<open>
  \<^verbatim>\<open>memset(&image[0], 0, n * sizeof(float))\<close> sets the first \<open>n\<close> elements to the value
  \<open>v\<close> whose bytes are all zero.
\<close>

definition memset :: "'a list \<Rightarrow> 'a \<Rightarrow> nat \<Rightarrow> 'a list option" where
  "memset img v n =
     (if n \<le> length img then Some (replicate n v @ drop n img) else None)"

text \<open>
  \<^verbatim>\<open>for (size_t i = i0; i < n; ++i) body\<close>, where the body neither changes \<open>i\<close> nor
  \<open>n\<close>; the loop stops at the first error of its body.
\<close>

function for_loop :: "nat \<Rightarrow> nat \<Rightarrow> (nat \<Rightarrow> 's \<Rightarrow> 's option) \<Rightarrow> 's \<Rightarrow> 's option" where
  "for_loop i n body s =
     (if i < n
      then (case body i s of None \<Rightarrow> None | Some s' \<Rightarrow> for_loop (Suc i) n body s')
      else Some s)"
  by pat_completeness auto
termination
  by (relation "measure (\<lambda>(i, n, body, s). n - i)") auto

subsection \<open>One level of the chain\<close>

text \<open>
  The body of the innermost loop of \<^verbatim>\<open>MakeMip\<close>. The state is the buffer and the
  output cursor \<open>destOffset\<close>. The four operands are \<^verbatim>\<open>image[\<dots>] + channel\<close>: the
  element at the start of each source pixel, plus the channel index converted to
  \<^verbatim>\<open>float\<close>.
\<close>

definition MakeMip_channel ::
  "'a float_ops \<Rightarrow> nat \<Rightarrow> nat \<Rightarrow> nat \<Rightarrow> nat \<Rightarrow> nat \<Rightarrow> 'a list \<times> nat \<Rightarrow> ('a list \<times> nat) option" where
  "MakeMip_channel ops srcOffset srcWidth destY destX channel s =
     (case s of (img, destOffset) \<Rightarrow>
        do {
          a \<leftarrow> rd img (((destY * 2 + 0) * srcWidth + destX * 2 + 0) * 4 + srcOffset);
          b \<leftarrow> rd img (((destY * 2 + 0) * srcWidth + destX * 2 + 1) * 4 + srcOffset);
          c \<leftarrow> rd img (((destY * 2 + 1) * srcWidth + destX * 2 + 0) * 4 + srcOffset);
          d \<leftarrow> rd img (((destY * 2 + 1) * srcWidth + destX * 2 + 1) * 4 + srcOffset);
          let value =
            fadd ops
              (fadd ops
                (fadd ops (fadd ops a (of_size ops channel)) (fadd ops b (of_size ops channel)))
                (fadd ops c (of_size ops channel)))
              (fadd ops d (of_size ops channel));
          img' \<leftarrow> wr img destOffset (fdiv ops value (of_size ops 4));
          Some (img', destOffset + 1)
        })"

definition MakeMip :: "'a float_ops \<Rightarrow> nat \<Rightarrow> 'a list \<Rightarrow> nat \<Rightarrow> 'a list option" where
  "MakeMip ops W img mipIndex =
     (case GetMipInfo W (mipIndex - 1) of (srcOffset, srcWidth) \<Rightarrow>
      case GetMipInfo W mipIndex of (destOffset, destWidth) \<Rightarrow>
        map_option fst
          (for_loop 0 destWidth (\<lambda>destY.
             for_loop 0 destWidth (\<lambda>destX.
               for_loop 0 4 (MakeMip_channel ops srcOffset srcWidth destY destX)))
             (img, destOffset)))"

definition MakeMips :: "'a float_ops \<Rightarrow> nat \<Rightarrow> 'a list \<Rightarrow> 'a list option" where
  "MakeMips ops W img =
     for_loop 1 (NumMips W) (\<lambda>mipIndex img. MakeMip ops W img mipIndex) img"

subsection \<open>Initialisation\<close>

definition InitImage_pixel ::
  "'a float_ops \<Rightarrow> nat \<Rightarrow> nat \<Rightarrow> 'a list \<times> nat \<Rightarrow> ('a list \<times> nat) option" where
  "InitImage_pixel ops y x s =
     (case s of (img, i) \<Rightarrow>
        do {
          img \<leftarrow> wr img (i * 4 + 0) (of_size ops (x mod 256));
          img \<leftarrow> wr img (i * 4 + 1) (of_size ops (y mod 256));
          img \<leftarrow> wr img (i * 4 + 2) (of_size ops 0);
          img \<leftarrow> wr img (i * 4 + 3) (of_size ops 255);
          Some (img, i + 1)
        })"

definition InitImage :: "'a float_ops \<Rightarrow> nat \<Rightarrow> 'a list \<Rightarrow> 'a list option" where
  "InitImage ops W img =
     do {
       img \<leftarrow> memset img (of_size ops 0) (TotalChannelsMipped W);
       map_option fst
         (for_loop 0 W (\<lambda>y. for_loop 0 W (\<lambda>x. InitImage_pixel ops y x)) (img, 0))
     }"

subsection \<open>The three trials of \<^verbatim>\<open>main\<close>\<close>

text \<open>
  Each trial allocates a buffer of \<open>TotalChannelsMipped\<close> elements, then runs
  \<^verbatim>\<open>InitImage\<close> and \<^verbatim>\<open>MakeMips\<close> on it. The buffers differ in what they hold at
  first: \<^verbatim>\<open>new std::array\<close> and \<^verbatim>\<open>malloc\<close> leave the elements indeterminate (any
  contents, given here as a function of the index), \<^verbatim>\<open>vector.resize\<close> sets them to
  \<^verbatim>\<open>0.0f\<close>. The instances of the two templates index the three containers the same
  way, so they are the same functions on the list of elements.
\<close>

datatype 'a storage = StdArray "nat \<Rightarrow> 'a" | StdVector | CArray "nat \<Rightarrow> 'a"

fun allocate :: "'a float_ops \<Rightarrow> nat \<Rightarrow> 'a storage \<Rightarrow> 'a list" where
  "allocate ops n (StdArray junk) = map junk [0..<n]"
| "allocate ops n StdVector = replicate n (of_size ops 0)"
| "allocate ops n (CArray junk) = map junk [0..<n]"

definition trial :: "'a float_ops \<Rightarrow> nat \<Rightarrow> 'a storage \<Rightarrow> 'a list option" where
  "trial ops W st =
     do {
       img \<leftarrow> InitImage ops W (allocate ops (TotalChannelsMipped W) st);
       MakeMips ops W img
     }"

subsection \<open>The stored value and the loop invariants\<close>

text \<open>
  \<open>box_value\<close> is the expression that the innermost statement of \<^verbatim>\<open>MakeMip\<close> stores
  for a destination pixel and a channel, read off a given buffer.
\<close>

definition box_value :: "'a float_ops \<Rightarrow> 'a list \<Rightarrow> nat \<Rightarrow> nat \<Rightarrow> nat \<Rightarrow> nat \<Rightarrow> nat \<Rightarrow> 'a" where
  "box_value ops img srcOffset srcWidth destY destX channel =
     fdiv ops
       (fadd ops
         (fadd ops
           (fadd ops
             (fadd ops (img ! (((destY * 2 + 0) * srcWidth + destX * 2 + 0) * 4 + srcOffset))
                (of_size ops channel))
             (fadd ops (img ! (((destY * 2 + 0) * srcWidth + destX * 2 + 1) * 4 + srcOffset))
                (of_size ops channel)))
           (fadd ops (img ! (((destY * 2 + 1) * srcWidth + destX * 2 + 0) * 4 + srcOffset))
              (of_size ops channel)))
         (fadd ops (img ! (((destY * 2 + 1) * srcWidth + destX * 2 + 1) * 4 + srcOffset))
            (of_size ops channel)))
       (of_size ops 4)"

text \<open>
  The invariant of the three loops of \<^verbatim>\<open>MakeMip\<close> after \<open>k\<close> stores, over the buffer
  \<open>img0\<close> the call started with: the cursor has advanced by \<open>k\<close>, everything outside
  the \<open>k\<close> elements stored so far is as it was, and the element number \<open>q\<close> of the
  destination level holds the \<open>box_value\<close> of its pixel and channel.
\<close>

definition MakeMip_inv ::
  "'a float_ops \<Rightarrow> 'a list \<Rightarrow> nat \<Rightarrow> nat \<Rightarrow> nat \<Rightarrow> nat \<Rightarrow> nat \<Rightarrow> 'a list \<times> nat \<Rightarrow> bool" where
  "MakeMip_inv ops img0 srcOffset srcWidth destOffset0 destWidth k s =
     (case s of (img, destOffset) \<Rightarrow>
        destOffset = destOffset0 + k \<and> length img = length img0 \<and>
        (\<forall>j<length img0. j < destOffset0 \<or> destOffset0 + k \<le> j \<longrightarrow> img ! j = img0 ! j) \<and>
        (\<forall>q<k. img ! (destOffset0 + q) =
           box_value ops img0 srcOffset srcWidth
             (q div 4 div destWidth) (q div 4 mod destWidth) (q mod 4)))"

text \<open>
  The invariant of the two loops of \<^verbatim>\<open>InitImage\<close> after \<open>k\<close> pixels, over the
  buffer \<open>img1\<close> that \<^verbatim>\<open>memset\<close> left: the counter is \<open>k\<close>, the elements from
  \<open>k * 4\<close> on are as they were, and pixel \<open>p < k\<close> of level 0, at column \<open>p mod W\<close>
  of row \<open>p div W\<close>, holds the gradient.
\<close>

definition InitImage_inv :: "'a float_ops \<Rightarrow> nat \<Rightarrow> 'a list \<Rightarrow> nat \<Rightarrow> 'a list \<times> nat \<Rightarrow> bool" where
  "InitImage_inv ops W img1 k s =
     (case s of (img, i) \<Rightarrow>
        i = k \<and> length img = length img1 \<and>
        (\<forall>j<length img1. k * 4 \<le> j \<longrightarrow> img ! j = img1 ! j) \<and>
        (\<forall>p<k. img ! (p * 4 + 0) = of_size ops (p mod W mod 256) \<and>
               img ! (p * 4 + 1) = of_size ops (p div W mod 256) \<and>
               img ! (p * 4 + 2) = of_size ops 0 \<and>
               img ! (p * 4 + 3) = of_size ops 255))"

section \<open>The sizes and the layout\<close>

declare TotalPixelsMipped_loop.simps [simp del]
declare NumMips_loop.simps [simp del]
declare GetMipInfo_loop.simps [simp del]
declare for_loop.simps [simp del]

lemma TotalPixelsMipped_loop_shift:
  "TotalPixelsMipped_loop (a + ret) sz = a + TotalPixelsMipped_loop ret sz"
proof (induction ret sz arbitrary: a rule: TotalPixelsMipped_loop.induct)
  case (1 ret sz)
  show ?case
  proof (cases "sz = 0")
    case True
    then show ?thesis by (simp add: TotalPixelsMipped_loop.simps)
  next
    case False
    have "TotalPixelsMipped_loop (a + ret) sz
        = TotalPixelsMipped_loop (a + (ret + sz * sz)) (sz div 2)"
      using False by (subst TotalPixelsMipped_loop.simps) (simp add: add.assoc)
    also have "\<dots> = a + TotalPixelsMipped_loop (ret + sz * sz) (sz div 2)"
      using "1.IH" [OF False] .
    also have "\<dots> = a + TotalPixelsMipped_loop ret sz"
      using False by (subst (2) TotalPixelsMipped_loop.simps) simp
    finally show ?thesis .
  qed
qed

lemma TotalPixelsMipped_rec:
  "TotalPixelsMipped W = (if W = 0 then 0 else W * W + TotalPixelsMipped (W div 2))"
proof (cases "W = 0")
  case True
  then show ?thesis by (simp add: TotalPixelsMipped_def TotalPixelsMipped_loop.simps)
next
  case False
  have "TotalPixelsMipped_loop 0 W = TotalPixelsMipped_loop (W * W + 0) (W div 2)"
    using False by (subst TotalPixelsMipped_loop.simps) simp
  then show ?thesis
    using False by (simp only: TotalPixelsMipped_def TotalPixelsMipped_loop_shift if_False)
qed

lemma NumMips_loop_shift: "NumMips_loop (a + ret) sz = a + NumMips_loop ret sz"
proof (induction ret sz arbitrary: a rule: NumMips_loop.induct)
  case (1 ret sz)
  show ?case
  proof (cases "sz = 0")
    case True
    then show ?thesis by (simp add: NumMips_loop.simps)
  next
    case False
    have "NumMips_loop (a + ret) sz = NumMips_loop (a + Suc ret) (sz div 2)"
      using False by (subst NumMips_loop.simps) simp
    also have "\<dots> = a + NumMips_loop (Suc ret) (sz div 2)"
      using "1.IH" [OF False] .
    also have "\<dots> = a + NumMips_loop ret sz"
      using False by (subst (2) NumMips_loop.simps) simp
    finally show ?thesis .
  qed
qed

lemma NumMips_rec: "NumMips W = (if W = 0 then 0 else Suc (NumMips (W div 2)))"
proof (cases "W = 0")
  case True
  then show ?thesis by (simp add: NumMips_def NumMips_loop.simps)
next
  case False
  have "NumMips_loop 0 W = NumMips_loop (1 + 0) (W div 2)"
    using False by (subst NumMips_loop.simps) simp
  then show ?thesis
    using False by (simp only: NumMips_def NumMips_loop_shift if_False)
qed

lemma NumMips_pow2: "NumMips (2 ^ n) = Suc n"
proof (induction n)
  case 0
  show ?case by (simp add: NumMips_rec [of "Suc 0"] NumMips_rec [of 0])
next
  case (Suc n)
  then show ?case by (subst NumMips_rec) simp
qed

lemma TotalPixelsMipped_pow2:
  "TotalPixelsMipped (2 ^ n) = (\<Sum>k = 0..n. (2 ^ n div 2 ^ k)\<^sup>2)"
proof (induction n)
  case 0
  show ?case by (simp add: TotalPixelsMipped_rec [of "Suc 0"] TotalPixelsMipped_rec [of 0])
next
  case (Suc n)
  have shift: "(\<Sum>k = 0..Suc n. ((2::nat) ^ Suc n div 2 ^ k)\<^sup>2)
      = (2 ^ Suc n)\<^sup>2 + (\<Sum>k = 0..n. ((2::nat) ^ Suc n div 2 ^ Suc k)\<^sup>2)"
    by (simp add: sum.atLeast0_atMost_Suc_shift del: sum.cl_ivl_Suc power_Suc)
  have "TotalPixelsMipped (2 ^ Suc n) = 2 ^ Suc n * 2 ^ Suc n + TotalPixelsMipped (2 ^ n)"
    by (subst TotalPixelsMipped_rec) simp
  also have "\<dots> = (2 ^ Suc n)\<^sup>2 + (\<Sum>k = 0..n. ((2::nat) ^ n div 2 ^ k)\<^sup>2)"
    by (simp only: Suc.IH power2_eq_square)
  also have "\<dots> = (\<Sum>k = 0..Suc n. ((2::nat) ^ Suc n div 2 ^ k)\<^sup>2)"
    by (simp only: shift) simp
  finally show ?case .
qed

lemma GetMipInfo_loop_Suc:
  "m \<le> d \<Longrightarrow> GetMipInfo_loop m (Suc d) s =
     (case GetMipInfo_loop m d s of
        (offset, width) \<Rightarrow> (offset + width * width * 4, width div 2))"
proof (induction m d s rule: GetMipInfo_loop.induct)
  case (1 mipIndex desiredMipIndex offset width)
  show ?case
  proof (cases "mipIndex < desiredMipIndex")
    case True
    then show ?thesis
      using "1.IH" [OF True] "1.prems"
      by (subst GetMipInfo_loop.simps, subst (2) GetMipInfo_loop.simps) simp
  next
    case False
    with "1.prems" have eq: "mipIndex = desiredMipIndex" by simp
    show ?thesis
      unfolding eq
      by (subst GetMipInfo_loop.simps, subst GetMipInfo_loop.simps,
          subst GetMipInfo_loop.simps) simp
  qed
qed

lemma GetMipInfo_0: "GetMipInfo W 0 = (0, W)"
  by (simp add: GetMipInfo_def GetMipInfo_loop.simps)

lemma GetMipInfo_Suc:
  "GetMipInfo W (Suc i) =
     (fst (GetMipInfo W i) + snd (GetMipInfo W i) * snd (GetMipInfo W i) * 4,
      snd (GetMipInfo W i) div 2)"
  by (simp add: GetMipInfo_def GetMipInfo_loop_Suc split: prod.split)

lemma GetMipInfo_width: "snd (GetMipInfo W i) = W div 2 ^ i"
proof (induction i)
  case 0
  show ?case by (simp add: GetMipInfo_0)
next
  case (Suc i)
  then show ?case by (simp add: GetMipInfo_Suc div_mult2_eq [symmetric] mult.commute)
qed

text \<open>
  The offset of a level and the pixels of the rest of the chain add up to the whole
  buffer: the loop of \<open>GetMipInfo\<close> walks through the summands of \<open>TotalPixelsMipped\<close>.
\<close>

lemma GetMipInfo_total:
  "fst (GetMipInfo W i) + TotalPixelsMipped (snd (GetMipInfo W i)) * 4 = TotalChannelsMipped W"
proof (induction i)
  case 0
  show ?case by (simp add: GetMipInfo_0 TotalChannelsMipped_def)
next
  case (Suc i)
  show ?case
    using Suc.IH TotalPixelsMipped_rec [of "snd (GetMipInfo W i)"]
    by (cases "snd (GetMipInfo W i) = 0") (simp_all add: GetMipInfo_Suc algebra_simps)
qed

lemma TotalChannelsMipped_IMAGE_SIZE: "TotalChannelsMipped IMAGE_SIZE = 1398100"
  by (simp add: IMAGE_SIZE_def TotalChannelsMipped_def TotalPixelsMipped_def
      TotalPixelsMipped_loop.simps)

lemma TotalPixelsMipped_ge: "W * W \<le> TotalPixelsMipped W"
  by (subst TotalPixelsMipped_rec) simp

lemma GetMipInfo_in_buffer:
  "fst (GetMipInfo W i) + snd (GetMipInfo W i) * snd (GetMipInfo W i) * 4 \<le> TotalChannelsMipped W"
  using GetMipInfo_total [of W i] TotalPixelsMipped_ge [of "snd (GetMipInfo W i)"] by simp

subsection \<open>Wrap-around\<close>

declare TotalPixelsMipped_loop64.simps [simp del]
declare GetMipInfo_loop64.simps [simp del]

lemma TotalPixelsMipped_loop64_mod:
  "ret < 2 ^ 64 \<Longrightarrow> TotalPixelsMipped_loop64 ret sz = (ret + TotalPixelsMipped sz) mod 2 ^ 64"
proof (induction ret sz rule: TotalPixelsMipped_loop64.induct)
  case (1 ret sz)
  show ?case
  proof (cases "sz = 0")
    case True
    then show ?thesis
      using "1.prems" by (simp add: TotalPixelsMipped_loop64.simps TotalPixelsMipped_rec [of 0])
  next
    case False
    have lt: "add64 ret (mul64 sz sz) < 2 ^ 64" by (simp add: add64_def)
    have "TotalPixelsMipped_loop64 ret sz
        = TotalPixelsMipped_loop64 (add64 ret (mul64 sz sz)) (sz div 2)"
      using False by (subst TotalPixelsMipped_loop64.simps) simp
    also have "\<dots> = (add64 ret (mul64 sz sz) + TotalPixelsMipped (sz div 2)) mod 2 ^ 64"
      by (rule "1.IH" [OF False lt])
    also have "\<dots> = (ret + (sz * sz + TotalPixelsMipped (sz div 2))) mod 2 ^ 64"
      by (simp add: add64_def mul64_def mod_simps add.assoc)
    also have "\<dots> = (ret + TotalPixelsMipped sz) mod 2 ^ 64"
      using False TotalPixelsMipped_rec [of sz] by simp
    finally show ?thesis .
  qed
qed

lemma TotalChannelsMipped64_mod: "TotalChannelsMipped64 W = TotalChannelsMipped W mod 2 ^ 64"
  by (simp add: TotalChannelsMipped64_def TotalPixelsMipped64_def mul64_def
      TotalPixelsMipped_loop64_mod TotalChannelsMipped_def mod_simps)

lemma GetMipInfo_loop64_Suc:
  "m \<le> d \<Longrightarrow> GetMipInfo_loop64 m (Suc d) s =
     (case GetMipInfo_loop64 m d s of
        (offset, width) \<Rightarrow> (add64 offset (mul64 (mul64 width width) 4), width div 2))"
proof (induction m d s rule: GetMipInfo_loop64.induct)
  case (1 mipIndex desiredMipIndex offset width)
  show ?case
  proof (cases "mipIndex < desiredMipIndex")
    case True
    then show ?thesis
      using "1.IH" [OF True] "1.prems"
      by (subst GetMipInfo_loop64.simps, subst (2) GetMipInfo_loop64.simps) simp
  next
    case False
    with "1.prems" have eq: "mipIndex = desiredMipIndex" by simp
    show ?thesis
      unfolding eq
      by (subst GetMipInfo_loop64.simps, subst GetMipInfo_loop64.simps,
          subst GetMipInfo_loop64.simps) simp
  qed
qed

lemma GetMipInfo64_0: "GetMipInfo64 W 0 = (0, W)"
  by (simp add: GetMipInfo64_def GetMipInfo_loop64.simps)

lemma GetMipInfo64_Suc:
  "GetMipInfo64 W (Suc i) =
     (add64 (fst (GetMipInfo64 W i))
        (mul64 (mul64 (snd (GetMipInfo64 W i)) (snd (GetMipInfo64 W i))) 4),
      snd (GetMipInfo64 W i) div 2)"
  by (simp add: GetMipInfo64_def GetMipInfo_loop64_Suc split: prod.split)

lemma GetMipInfo64_mod:
  "GetMipInfo64 W i = (fst (GetMipInfo W i) mod 2 ^ 64, snd (GetMipInfo W i))"
proof (induction i)
  case 0
  show ?case by (simp add: GetMipInfo64_0 GetMipInfo_0)
next
  case (Suc i)
  show ?case
    by (simp add: GetMipInfo64_Suc GetMipInfo_Suc Suc.IH add64_def mul64_def mod_simps)
qed

lemma TotalPixelsMipped_le: "TotalPixelsMipped W \<le> 2 * (W * W)"
proof (induction W rule: less_induct)
  case (less W)
  show ?case
  proof (cases "W = 0")
    case True
    then show ?thesis by (simp add: TotalPixelsMipped_rec [of 0])
  next
    case False
    then have "W div 2 < W" by simp
    from less.IH [OF this]
    have "TotalPixelsMipped (W div 2) \<le> W div 2 * (2 * (W div 2))" by (simp add: mult.commute)
    also have "\<dots> \<le> W div 2 * W" by (intro mult_le_mono2) simp
    also have "\<dots> \<le> W * W" by (intro mult_le_mono1) simp
    finally show ?thesis
      using False by (subst TotalPixelsMipped_rec) simp
  qed
qed

lemma TotalChannelsMipped_fits:
  assumes "W \<le> 2 ^ 30"
  shows "TotalChannelsMipped W < 2 ^ 64"
proof -
  have "W * W \<le> 2 ^ 30 * 2 ^ 30" by (rule mult_le_mono [OF assms assms])
  then have "TotalPixelsMipped W \<le> 2 * (2 ^ 30 * 2 ^ 30)"
    using TotalPixelsMipped_le [of W] by simp
  then show ?thesis by (simp add: TotalChannelsMipped_def)
qed

lemma TotalChannelsMipped64_eq:
  "W \<le> 2 ^ 30 \<Longrightarrow> TotalChannelsMipped64 W = TotalChannelsMipped W"
  using TotalChannelsMipped_fits [of W] by (simp add: TotalChannelsMipped64_mod)

lemma GetMipInfo64_eq:
  assumes "W \<le> 2 ^ 30"
  shows "GetMipInfo64 W i = GetMipInfo W i"
proof -
  have "fst (GetMipInfo W i) < 2 ^ 64"
    using GetMipInfo_in_buffer [of W i] TotalChannelsMipped_fits [OF assms] by simp
  then show ?thesis by (simp add: GetMipInfo64_mod prod_eq_iff)
qed

section \<open>The loops of \<^verbatim>\<open>MakeMip\<close>\<close>

lemma for_loop_rule:
  assumes "i \<le> n" and "I i s"
    and step: "\<And>k t. i \<le> k \<Longrightarrow> k < n \<Longrightarrow> I k t \<Longrightarrow> \<exists>t'. body k t = Some t' \<and> I (Suc k) t'"
  shows "\<exists>t. for_loop i n body s = Some t \<and> I n t"
  using assms
proof (induction "n - i" arbitrary: i s)
  case 0
  then have "i = n" by simp
  with "0.prems" show ?case by (simp add: for_loop.simps)
next
  case (Suc d)
  then have lt: "i < n" by simp
  from Suc.prems(3) [OF le_refl lt Suc.prems(2)]
  obtain t' where t': "body i s = Some t'" "I (Suc i) t'" by blast
  have "\<exists>t. for_loop (Suc i) n body t' = Some t \<and> I n t"
  proof (rule Suc.hyps(1))
    show "d = n - Suc i" using Suc.hyps(2) by simp
    show "Suc i \<le> n" using lt by simp
    show "I (Suc i) t'" by fact
    show "\<exists>t'. body k t = Some t' \<and> I (Suc k) t'" if "Suc i \<le> k" "k < n" "I k t" for k t
      using Suc.prems(3) [of k t] that by simp
  qed
  then show ?case
    using lt t' by (subst for_loop.simps) simp
qed

lemma grid_index_less: "r < n \<Longrightarrow> c < n \<Longrightarrow> r * n + c < n * (n::nat)"
proof -
  assume r: "r < n" and c: "c < n"
  have "r * n + c < r * n + n" using c by simp
  also have "\<dots> = Suc r * n" by simp
  also have "\<dots> \<le> n * n" using r by (metis Suc_leI mult_le_mono1)
  finally show ?thesis .
qed

lemma src_index_less:
  fixes destY destX destWidth srcWidth a b srcOffset :: nat
  assumes "destY < destWidth" "destX < destWidth" "2 * destWidth \<le> srcWidth" "a < 2" "b < 2"
  shows "((destY * 2 + a) * srcWidth + destX * 2 + b) * 4 + srcOffset
       < srcOffset + srcWidth * srcWidth * 4"
proof -
  have "destY * 2 + a < srcWidth" "destX * 2 + b < srcWidth" using assms by auto
  from grid_index_less [OF this]
  show ?thesis by (simp add: add.assoc)
qed

lemma dest_index_less:
  fixes destY destX destWidth channel :: nat
  assumes "destY < destWidth" "destX < destWidth" "channel < 4"
  shows "(destY * destWidth + destX) * 4 + channel < destWidth * destWidth * 4"
  using grid_index_less [OF assms(1,2)] assms(3) by simp

lemma dest_index_encode:
  fixes q destWidth :: nat
  assumes "q < destWidth * destWidth * 4"
  shows "q = ((q div 4 div destWidth) * destWidth + q div 4 mod destWidth) * 4 + q mod 4"
    and "q div 4 div destWidth < destWidth"
    and "q div 4 mod destWidth < destWidth"
    and "q mod 4 < 4"
proof -
  have pos: "0 < destWidth" using assms by (cases "destWidth = 0") simp_all
  have "q div 4 < destWidth * destWidth" using assms by simp
  then show "q div 4 div destWidth < destWidth"
    by (rule less_mult_imp_div_less)
  show "q div 4 mod destWidth < destWidth" using pos by simp
  show "q mod 4 < 4" by simp
  show "q = ((q div 4 div destWidth) * destWidth + q div 4 mod destWidth) * 4 + q mod 4"
    by simp
qed

lemma dest_index_decode:
  fixes destY destX destWidth channel :: nat
  assumes "destX < destWidth" "channel < 4"
  shows "((destY * destWidth + destX) * 4 + channel) div 4 div destWidth = destY"
    and "((destY * destWidth + destX) * 4 + channel) div 4 mod destWidth = destX"
    and "((destY * destWidth + destX) * 4 + channel) mod 4 = channel"
proof -
  have d4: "(m * 4 + channel) div 4 = m" and m4: "(m * 4 + channel) mod 4 = channel" for m
    using assms(2) by simp_all
  have dw: "(destY * destWidth + destX) div destWidth = destY"
    and mw: "(destY * destWidth + destX) mod destWidth = destX"
    using assms(1) by simp_all
  show "((destY * destWidth + destX) * 4 + channel) div 4 div destWidth = destY"
    by (simp only: d4 dw)
  show "((destY * destWidth + destX) * 4 + channel) div 4 mod destWidth = destX"
    by (simp only: d4 mw)
  show "((destY * destWidth + destX) * 4 + channel) mod 4 = channel"
    by (rule m4)
qed

lemma MakeMip_channel_step:
  assumes geo: "srcOffset + srcWidth * srcWidth * 4 \<le> destOffset0"
      "2 * destWidth \<le> srcWidth"
      "destOffset0 + destWidth * destWidth * 4 \<le> length img0"
    and pos: "destY < destWidth" "destX < destWidth" "channel < 4"
    and inv: "MakeMip_inv ops img0 srcOffset srcWidth destOffset0 destWidth
                ((destY * destWidth + destX) * 4 + channel) s"
  shows "\<exists>s'. MakeMip_channel ops srcOffset srcWidth destY destX channel s = Some s'
            \<and> MakeMip_inv ops img0 srcOffset srcWidth destOffset0 destWidth
                ((destY * destWidth + destX) * 4 + Suc channel) s'"
proof -
  define k where "k = (destY * destWidth + destX) * 4 + channel"
  obtain img destOffset where s: "s = (img, destOffset)" by (cases s)
  from inv have I: "destOffset = destOffset0 + k \<and> length img = length img0 \<and>
        (\<forall>j<length img0. j < destOffset0 \<or> destOffset0 + k \<le> j \<longrightarrow> img ! j = img0 ! j) \<and>
        (\<forall>q<k. img ! (destOffset0 + q) =
           box_value ops img0 srcOffset srcWidth
             (q div 4 div destWidth) (q div 4 mod destWidth) (q mod 4))"
    unfolding MakeMip_inv_def s k_def prod.case .
  from I have cur: "destOffset = destOffset0 + k" and len: "length img = length img0"
    by blast+
  from I have frame: "img ! j = img0 ! j"
    if "j < length img0" "j < destOffset0 \<or> destOffset0 + k \<le> j" for j
    using that by blast
  from I have filled: "img ! (destOffset0 + q) =
           box_value ops img0 srcOffset srcWidth
             (q div 4 div destWidth) (q div 4 mod destWidth) (q mod 4)"
    if "q < k" for q
    using that by blast
  have kb: "k < destWidth * destWidth * 4"
    unfolding k_def by (rule dest_index_less [OF pos])
  have src: "rd img (((destY * 2 + a) * srcWidth + destX * 2 + b) * 4 + srcOffset)
           = Some (img0 ! (((destY * 2 + a) * srcWidth + destX * 2 + b) * 4 + srcOffset))"
    if "a < 2" "b < 2" for a b
  proof -
    have "((destY * 2 + a) * srcWidth + destX * 2 + b) * 4 + srcOffset < destOffset0"
      using src_index_less [OF pos(1,2) geo(2) that, of srcOffset] geo(1) by simp
    then show ?thesis
      using frame geo(3) by (simp add: rd_def len)
  qed
  define v where "v = box_value ops img0 srcOffset srcWidth destY destX channel"
  have res: "MakeMip_channel ops srcOffset srcWidth destY destX channel s
      = Some (img[destOffset0 + k := v], destOffset0 + k + 1)"
    using src [of 0 0] src [of 0 1] src [of 1 0] src [of 1 1] kb geo(3)
    by (simp add: MakeMip_channel_def s cur wr_def len v_def box_value_def)
  have "MakeMip_inv ops img0 srcOffset srcWidth destOffset0 destWidth (Suc k)
          (img[destOffset0 + k := v], destOffset0 + k + 1)"
    unfolding MakeMip_inv_def prod.case
  proof (intro conjI allI impI)
    show "destOffset0 + k + 1 = destOffset0 + Suc k" by simp
    show "length (img[destOffset0 + k := v]) = length img0" by (simp add: len)
    show "img[destOffset0 + k := v] ! j = img0 ! j"
      if "j < length img0" "j < destOffset0 \<or> destOffset0 + Suc k \<le> j" for j
      using that frame [of j] by auto
    show "img[destOffset0 + k := v] ! (destOffset0 + q) =
           box_value ops img0 srcOffset srcWidth
             (q div 4 div destWidth) (q div 4 mod destWidth) (q mod 4)"
      if "q < Suc k" for q
    proof (cases "q = k")
      case True
      have "destOffset0 + k < length img" using kb geo(3) len by simp
      then show ?thesis
        unfolding True v_def k_def
        by (simp only: nth_list_update_eq dest_index_decode [OF pos(2,3)])
    next
      case False
      with that have "q < k" by simp
      then show ?thesis using filled [of q] by simp
    qed
  qed
  with res show ?thesis by (simp add: k_def)
qed

lemma MakeMip_destX_step:
  assumes geo: "srcOffset + srcWidth * srcWidth * 4 \<le> destOffset0"
      "2 * destWidth \<le> srcWidth"
      "destOffset0 + destWidth * destWidth * 4 \<le> length img0"
    and pos: "destY < destWidth" "destX < destWidth"
    and inv: "MakeMip_inv ops img0 srcOffset srcWidth destOffset0 destWidth
                ((destY * destWidth + destX) * 4) s"
  shows "\<exists>s'. for_loop 0 4 (MakeMip_channel ops srcOffset srcWidth destY destX) s = Some s'
            \<and> MakeMip_inv ops img0 srcOffset srcWidth destOffset0 destWidth
                ((destY * destWidth + Suc destX) * 4) s'"
proof -
  have "\<exists>s'. for_loop 0 4 (MakeMip_channel ops srcOffset srcWidth destY destX) s = Some s'
     \<and> MakeMip_inv ops img0 srcOffset srcWidth destOffset0 destWidth
          ((destY * destWidth + destX) * 4 + 4) s'"
  proof (rule for_loop_rule [where I = "\<lambda>channel. MakeMip_inv ops img0 srcOffset srcWidth
            destOffset0 destWidth ((destY * destWidth + destX) * 4 + channel)"])
    show "(0::nat) \<le> 4" by simp
    show "MakeMip_inv ops img0 srcOffset srcWidth destOffset0 destWidth
            ((destY * destWidth + destX) * 4 + 0) s"
      using inv by simp
    show "\<exists>t'. MakeMip_channel ops srcOffset srcWidth destY destX k t = Some t'
            \<and> MakeMip_inv ops img0 srcOffset srcWidth destOffset0 destWidth
                 ((destY * destWidth + destX) * 4 + Suc k) t'"
      if "k < 4" "MakeMip_inv ops img0 srcOffset srcWidth destOffset0 destWidth
                 ((destY * destWidth + destX) * 4 + k) t" for k t
      by (rule MakeMip_channel_step [OF geo pos that])
  qed
  then show ?thesis by (simp add: algebra_simps)
qed

lemma MakeMip_destY_step:
  assumes geo: "srcOffset + srcWidth * srcWidth * 4 \<le> destOffset0"
      "2 * destWidth \<le> srcWidth"
      "destOffset0 + destWidth * destWidth * 4 \<le> length img0"
    and pos: "destY < destWidth"
    and inv: "MakeMip_inv ops img0 srcOffset srcWidth destOffset0 destWidth
                (destY * destWidth * 4) s"
  shows "\<exists>s'. for_loop 0 destWidth (\<lambda>destX.
                 for_loop 0 4 (MakeMip_channel ops srcOffset srcWidth destY destX)) s = Some s'
            \<and> MakeMip_inv ops img0 srcOffset srcWidth destOffset0 destWidth
                (Suc destY * destWidth * 4) s'"
proof -
  have "\<exists>s'. for_loop 0 destWidth (\<lambda>destX.
                 for_loop 0 4 (MakeMip_channel ops srcOffset srcWidth destY destX)) s = Some s'
     \<and> MakeMip_inv ops img0 srcOffset srcWidth destOffset0 destWidth
          ((destY * destWidth + destWidth) * 4) s'"
  proof (rule for_loop_rule [where I = "\<lambda>destX. MakeMip_inv ops img0 srcOffset srcWidth
            destOffset0 destWidth ((destY * destWidth + destX) * 4)"])
    show "0 \<le> destWidth" by simp
    show "MakeMip_inv ops img0 srcOffset srcWidth destOffset0 destWidth
            ((destY * destWidth + 0) * 4) s"
      using inv by simp
    show "\<exists>t'. for_loop 0 4 (MakeMip_channel ops srcOffset srcWidth destY k) t = Some t'
            \<and> MakeMip_inv ops img0 srcOffset srcWidth destOffset0 destWidth
                 ((destY * destWidth + Suc k) * 4) t'"
      if "k < destWidth" "MakeMip_inv ops img0 srcOffset srcWidth destOffset0 destWidth
                 ((destY * destWidth + k) * 4) t" for k t
      by (rule MakeMip_destX_step [OF geo pos that])
  qed
  then show ?thesis by (simp add: algebra_simps)
qed

lemma MakeMip_loops:
  assumes geo: "srcOffset + srcWidth * srcWidth * 4 \<le> destOffset0"
      "2 * destWidth \<le> srcWidth"
      "destOffset0 + destWidth * destWidth * 4 \<le> length img0"
  shows "\<exists>s'. for_loop 0 destWidth (\<lambda>destY.
                 for_loop 0 destWidth (\<lambda>destX.
                   for_loop 0 4 (MakeMip_channel ops srcOffset srcWidth destY destX)))
               (img0, destOffset0) = Some s'
            \<and> MakeMip_inv ops img0 srcOffset srcWidth destOffset0 destWidth
                (destWidth * destWidth * 4) s'"
proof (rule for_loop_rule [where I = "\<lambda>destY. MakeMip_inv ops img0 srcOffset srcWidth
            destOffset0 destWidth (destY * destWidth * 4)"])
  show "0 \<le> destWidth" by simp
  show "MakeMip_inv ops img0 srcOffset srcWidth destOffset0 destWidth (0 * destWidth * 4)
          (img0, destOffset0)"
    by (simp add: MakeMip_inv_def)
  show "\<exists>t'. for_loop 0 destWidth (\<lambda>destX.
                 for_loop 0 4 (MakeMip_channel ops srcOffset srcWidth k destX)) t = Some t'
          \<and> MakeMip_inv ops img0 srcOffset srcWidth destOffset0 destWidth
               (Suc k * destWidth * 4) t'"
    if "k < destWidth" "MakeMip_inv ops img0 srcOffset srcWidth destOffset0 destWidth
               (k * destWidth * 4) t" for k t
    by (rule MakeMip_destY_step [OF geo that])
qed

lemma GetMipInfo_pred:
  assumes "1 \<le> mipIndex"
  shows "fst (GetMipInfo W mipIndex)
       = fst (GetMipInfo W (mipIndex - 1))
         + snd (GetMipInfo W (mipIndex - 1)) * snd (GetMipInfo W (mipIndex - 1)) * 4"
    and "snd (GetMipInfo W mipIndex) = snd (GetMipInfo W (mipIndex - 1)) div 2"
proof -
  from assms obtain i where i: "mipIndex = Suc i" by (cases mipIndex) auto
  show "fst (GetMipInfo W mipIndex)
       = fst (GetMipInfo W (mipIndex - 1))
         + snd (GetMipInfo W (mipIndex - 1)) * snd (GetMipInfo W (mipIndex - 1)) * 4"
    unfolding i by (simp add: GetMipInfo_Suc)
  show "snd (GetMipInfo W mipIndex) = snd (GetMipInfo W (mipIndex - 1)) div 2"
    unfolding i by (simp add: GetMipInfo_Suc)
qed

lemma MakeMip_correct:
  assumes idx: "1 \<le> mipIndex"
    and src: "GetMipInfo W (mipIndex - 1) = (srcOffset, srcWidth)"
    and dest: "GetMipInfo W mipIndex = (destOffset, destWidth)"
    and fits: "0 < destWidth \<Longrightarrow> destOffset + destWidth * destWidth * 4 \<le> length img0"
  shows "\<exists>img'. MakeMip ops W img0 mipIndex = Some img'
           \<and> MakeMip_inv ops img0 srcOffset srcWidth destOffset destWidth
                (destWidth * destWidth * 4) (img', destOffset + destWidth * destWidth * 4)"
proof (cases "destWidth = 0")
  case True
  show ?thesis
    unfolding MakeMip_def src dest True
    by (simp add: for_loop.simps MakeMip_inv_def)
next
  case False
  then have fits': "destOffset + destWidth * destWidth * 4 \<le> length img0"
    using fits by simp
  have g1: "srcOffset + srcWidth * srcWidth * 4 \<le> destOffset"
    using GetMipInfo_pred(1) [OF idx, of W] unfolding src dest by simp
  have g2: "2 * destWidth \<le> srcWidth"
    using GetMipInfo_pred(2) [OF idx, of W] unfolding src dest by simp
  from MakeMip_loops [OF g1 g2 fits', of ops]
  obtain s' where s': "for_loop 0 destWidth (\<lambda>destY.
                 for_loop 0 destWidth (\<lambda>destX.
                   for_loop 0 4 (MakeMip_channel ops srcOffset srcWidth destY destX)))
               (img0, destOffset) = Some s'"
    and inv: "MakeMip_inv ops img0 srcOffset srcWidth destOffset destWidth
                (destWidth * destWidth * 4) s'"
    by blast
  obtain img' cur where p: "s' = (img', cur)" by (cases s')
  from inv have "cur = destOffset + destWidth * destWidth * 4"
    by (simp add: MakeMip_inv_def p)
  with inv s' show ?thesis
    unfolding MakeMip_def src dest p by simp
qed

lemma MakeMip_length:
  assumes "1 \<le> mipIndex" "TotalChannelsMipped W \<le> length img"
  shows "\<exists>img'. MakeMip ops W img mipIndex = Some img' \<and> length img' = length img"
proof -
  obtain srcOffset srcWidth where src: "GetMipInfo W (mipIndex - 1) = (srcOffset, srcWidth)"
    by (cases "GetMipInfo W (mipIndex - 1)")
  obtain destOffset destWidth where dest: "GetMipInfo W mipIndex = (destOffset, destWidth)"
    by (cases "GetMipInfo W mipIndex")
  have "destOffset + destWidth * destWidth * 4 \<le> length img"
    using GetMipInfo_in_buffer [of W mipIndex] assms(2) by (simp add: dest)
  from MakeMip_correct [OF assms(1) src dest this, of ops]
  show ?thesis by (auto simp: MakeMip_inv_def)
qed

lemma MakeMips_total:
  assumes "TotalChannelsMipped W \<le> length img"
  shows "\<exists>img'. MakeMips ops W img = Some img' \<and> length img' = length img"
proof (cases "1 \<le> NumMips W")
  case True
  show ?thesis
    unfolding MakeMips_def
  proof (rule for_loop_rule [where I = "\<lambda>mipIndex img'. length img' = length img"])
    show "1 \<le> NumMips W" by fact
    show "length img = length img" ..
    show "\<exists>t'. MakeMip ops W t k = Some t' \<and> length t' = length img"
      if "1 \<le> k" "length t = length img" for k t
      using MakeMip_length [OF that(1), of W t ops] assms that(2) by simp
  qed
next
  case False
  then show ?thesis
    by (simp add: MakeMips_def for_loop.simps)
qed

section \<open>The loops of \<^verbatim>\<open>InitImage\<close>\<close>

lemma memset_correct:
  assumes "n \<le> length img"
  shows "\<exists>img1. memset img v n = Some img1 \<and> length img1 = length img
           \<and> (\<forall>j<n. img1 ! j = v) \<and> (\<forall>j<length img. n \<le> j \<longrightarrow> img1 ! j = img ! j)"
  using assms by (simp add: memset_def nth_append)

lemma InitImage_pixel_step:
  assumes fits: "W * W * 4 \<le> length img1"
    and pos: "y < W" "x < W"
    and inv: "InitImage_inv ops W img1 (y * W + x) s"
  shows "\<exists>s'. InitImage_pixel ops y x s = Some s' \<and> InitImage_inv ops W img1 (y * W + Suc x) s'"
proof -
  define k where "k = y * W + x"
  obtain img i where s: "s = (img, i)" by (cases s)
  from inv have I: "i = k \<and> length img = length img1 \<and>
        (\<forall>j<length img1. k * 4 \<le> j \<longrightarrow> img ! j = img1 ! j) \<and>
        (\<forall>p<k. img ! (p * 4 + 0) = of_size ops (p mod W mod 256) \<and>
               img ! (p * 4 + 1) = of_size ops (p div W mod 256) \<and>
               img ! (p * 4 + 2) = of_size ops 0 \<and>
               img ! (p * 4 + 3) = of_size ops 255)"
    unfolding InitImage_inv_def s k_def prod.case .
  from I have cur: "i = k" and len: "length img = length img1" by blast+
  have "k < W * W" unfolding k_def by (rule grid_index_less [OF pos])
  then have kb: "k * 4 + 3 < length img" using fits len by simp
  have xy: "k mod W = x" "k div W = y" using pos(2) by (simp_all add: k_def)
  define img' where "img' = img[k * 4 + 0 := of_size ops (x mod 256),
       k * 4 + 1 := of_size ops (y mod 256), k * 4 + 2 := of_size ops 0,
       k * 4 + 3 := of_size ops 255]"
  have res: "InitImage_pixel ops y x s = Some (img', k + 1)"
    using kb by (simp add: InitImage_pixel_def s cur wr_def img'_def)
  have "InitImage_inv ops W img1 (Suc k) (img', k + 1)"
    unfolding InitImage_inv_def prod.case
  proof (intro conjI allI impI)
    show "k + 1 = Suc k" by simp
    show "length img' = length img1" by (simp add: img'_def len)
    show "img' ! j = img1 ! j" if "j < length img1" "Suc k * 4 \<le> j" for j
      using that I by (simp add: img'_def)
    fix p assume p: "p < Suc k"
    show "img' ! (p * 4 + 0) = of_size ops (p mod W mod 256)"
      using p I kb by (cases "p = k") (simp_all add: img'_def xy)
    show "img' ! (p * 4 + 1) = of_size ops (p div W mod 256)"
      using p I kb by (cases "p = k") (simp_all add: img'_def xy)
    show "img' ! (p * 4 + 2) = of_size ops 0"
      using p I kb by (cases "p = k") (simp_all add: img'_def xy)
    show "img' ! (p * 4 + 3) = of_size ops 255"
      using p I kb by (cases "p = k") (simp_all add: img'_def xy)
  qed
  with res show ?thesis by (simp add: k_def)
qed

lemma InitImage_row_step:
  assumes fits: "W * W * 4 \<le> length img1"
    and pos: "y < W"
    and inv: "InitImage_inv ops W img1 (y * W) s"
  shows "\<exists>s'. for_loop 0 W (\<lambda>x. InitImage_pixel ops y x) s = Some s'
            \<and> InitImage_inv ops W img1 (Suc y * W) s'"
proof -
  have "\<exists>s'. for_loop 0 W (\<lambda>x. InitImage_pixel ops y x) s = Some s'
            \<and> InitImage_inv ops W img1 (y * W + W) s'"
  proof (rule for_loop_rule [where I = "\<lambda>x. InitImage_inv ops W img1 (y * W + x)"])
    show "0 \<le> W" by simp
    show "InitImage_inv ops W img1 (y * W + 0) s" using inv by simp
    show "\<exists>t'. InitImage_pixel ops y k t = Some t' \<and> InitImage_inv ops W img1 (y * W + Suc k) t'"
      if "k < W" "InitImage_inv ops W img1 (y * W + k) t" for k t
      by (rule InitImage_pixel_step [OF fits pos that])
  qed
  then show ?thesis by (simp add: algebra_simps)
qed

lemma InitImage_loops:
  assumes fits: "W * W * 4 \<le> length img1"
  shows "\<exists>s'. for_loop 0 W (\<lambda>y. for_loop 0 W (\<lambda>x. InitImage_pixel ops y x)) (img1, 0) = Some s'
            \<and> InitImage_inv ops W img1 (W * W) s'"
proof (rule for_loop_rule [where I = "\<lambda>y. InitImage_inv ops W img1 (y * W)"])
  show "0 \<le> W" by simp
  show "InitImage_inv ops W img1 (0 * W) (img1, 0)" by (simp add: InitImage_inv_def)
  show "\<exists>t'. for_loop 0 W (\<lambda>x. InitImage_pixel ops k x) t = Some t'
          \<and> InitImage_inv ops W img1 (Suc k * W) t'"
    if "k < W" "InitImage_inv ops W img1 (k * W) t" for k t
    by (rule InitImage_row_step [OF fits that])
qed

section \<open>What the functions compute\<close>

lemma MakeMip_result:
  assumes idx: "1 \<le> mipIndex"
    and src: "GetMipInfo W (mipIndex - 1) = (srcOffset, srcWidth)"
    and dest: "GetMipInfo W mipIndex = (destOffset, destWidth)"
    and fits: "0 < destWidth \<Longrightarrow> destOffset + destWidth * destWidth * 4 \<le> length img"
  shows "\<exists>img'. MakeMip ops W img mipIndex = Some img' \<and> length img' = length img
           \<and> (\<forall>j<length img. j < destOffset \<or> destOffset + destWidth * destWidth * 4 \<le> j
                  \<longrightarrow> img' ! j = img ! j)
           \<and> (\<forall>destY<destWidth. \<forall>destX<destWidth. \<forall>channel<4.
                  img' ! (destOffset + ((destY * destWidth + destX) * 4 + channel))
                  = box_value ops img srcOffset srcWidth destY destX channel)"
proof -
  from MakeMip_correct [OF idx src dest fits, of ops]
  obtain img' where res: "MakeMip ops W img mipIndex = Some img'"
    and inv: "MakeMip_inv ops img srcOffset srcWidth destOffset destWidth
                (destWidth * destWidth * 4) (img', destOffset + destWidth * destWidth * 4)"
    by blast
  from inv have I: "length img' = length img \<and>
        (\<forall>j<length img. j < destOffset \<or> destOffset + destWidth * destWidth * 4 \<le> j
            \<longrightarrow> img' ! j = img ! j) \<and>
        (\<forall>q<destWidth * destWidth * 4. img' ! (destOffset + q) =
           box_value ops img srcOffset srcWidth
             (q div 4 div destWidth) (q div 4 mod destWidth) (q mod 4))"
    unfolding MakeMip_inv_def prod.case by blast
  have "img' ! (destOffset + ((destY * destWidth + destX) * 4 + channel))
      = box_value ops img srcOffset srcWidth destY destX channel"
    if "destY < destWidth" "destX < destWidth" "channel < 4" for destY destX channel
  proof -
    have "(destY * destWidth + destX) * 4 + channel < destWidth * destWidth * 4"
      by (rule dest_index_less [OF that])
    with I have "img' ! (destOffset + ((destY * destWidth + destX) * 4 + channel)) =
           box_value ops img srcOffset srcWidth
             (((destY * destWidth + destX) * 4 + channel) div 4 div destWidth)
             (((destY * destWidth + destX) * 4 + channel) div 4 mod destWidth)
             (((destY * destWidth + destX) * 4 + channel) mod 4)"
      by blast
    then show ?thesis
      by (simp only: dest_index_decode [OF that(2,3)])
  qed
  with res I show ?thesis by blast
qed

lemma box_value_cong:
  assumes agree: "\<And>j. srcOffset \<le> j \<Longrightarrow> j < srcOffset + srcWidth * srcWidth * 4 \<Longrightarrow> img2 ! j = img ! j"
    and pos: "destY < destWidth" "destX < destWidth" "2 * destWidth \<le> srcWidth"
  shows "box_value ops img2 srcOffset srcWidth destY destX channel
       = box_value ops img srcOffset srcWidth destY destX channel"
proof -
  have "img2 ! (((destY * 2 + a) * srcWidth + destX * 2 + b) * 4 + srcOffset)
      = img ! (((destY * 2 + a) * srcWidth + destX * 2 + b) * 4 + srcOffset)"
    if "a < 2" "b < 2" for a b
    using src_index_less [OF pos that, of srcOffset] by (intro agree) simp_all
  from this [of 0 0] this [of 0 1] this [of 1 0] this [of 1 1]
  show ?thesis by (simp add: box_value_def)
qed

lemma InitImage_correct:
  assumes fits: "TotalChannelsMipped W \<le> length img0"
  shows "\<exists>img'. InitImage ops W img0 = Some img' \<and> length img' = length img0
           \<and> (\<forall>p<W * W. img' ! (p * 4 + 0) = of_size ops (p mod W mod 256) \<and>
                  img' ! (p * 4 + 1) = of_size ops (p div W mod 256) \<and>
                  img' ! (p * 4 + 2) = of_size ops 0 \<and>
                  img' ! (p * 4 + 3) = of_size ops 255)
           \<and> (\<forall>j. W * W * 4 \<le> j \<and> j < TotalChannelsMipped W \<longrightarrow> img' ! j = of_size ops 0)
           \<and> (\<forall>j. TotalChannelsMipped W \<le> j \<and> j < length img0 \<longrightarrow> img' ! j = img0 ! j)"
proof -
  from memset_correct [OF fits, of "of_size ops 0"]
  obtain img1 where m: "memset img0 (of_size ops 0) (TotalChannelsMipped W) = Some img1"
    and len1: "length img1 = length img0"
    and zero: "\<And>j. j < TotalChannelsMipped W \<Longrightarrow> img1 ! j = of_size ops 0"
    and rest: "\<And>j. j < length img0 \<Longrightarrow> TotalChannelsMipped W \<le> j \<Longrightarrow> img1 ! j = img0 ! j"
    by blast
  have level0: "W * W * 4 \<le> TotalChannelsMipped W"
    using TotalPixelsMipped_ge [of W] by (simp add: TotalChannelsMipped_def)
  then have "W * W * 4 \<le> length img1" using fits len1 by simp
  from InitImage_loops [OF this, of ops]
  obtain s' where loops: "for_loop 0 W (\<lambda>y. for_loop 0 W (\<lambda>x. InitImage_pixel ops y x)) (img1, 0) = Some s'"
    and inv: "InitImage_inv ops W img1 (W * W) s'"
    by blast
  obtain img' i where s': "s' = (img', i)" by (cases s')
  from inv have I: "length img' = length img1 \<and>
        (\<forall>j<length img1. W * W * 4 \<le> j \<longrightarrow> img' ! j = img1 ! j) \<and>
        (\<forall>p<W * W. img' ! (p * 4 + 0) = of_size ops (p mod W mod 256) \<and>
               img' ! (p * 4 + 1) = of_size ops (p div W mod 256) \<and>
               img' ! (p * 4 + 2) = of_size ops 0 \<and>
               img' ! (p * 4 + 3) = of_size ops 255)"
    unfolding InitImage_inv_def s' prod.case by blast
  have res: "InitImage ops W img0 = Some img'"
    by (simp add: InitImage_def m loops s')
  have z: "img' ! j = of_size ops 0" if "W * W * 4 \<le> j" "j < TotalChannelsMipped W" for j
    using I that zero [of j] fits len1 by simp
  have r: "img' ! j = img0 ! j" if "TotalChannelsMipped W \<le> j" "j < length img0" for j
    using I that rest [of j] level0 len1 by simp
  from res I z r len1 show ?thesis by simp
qed

lemma InitImage_unique:
  assumes a: "length a = TotalChannelsMipped W" and b: "length b = TotalChannelsMipped W"
  shows "InitImage ops W a = InitImage ops W b"
proof -
  from InitImage_correct [of W a ops] a
  obtain a' where a': "InitImage ops W a = Some a'" "length a' = TotalChannelsMipped W"
    and pa: "\<And>p. p < W * W \<Longrightarrow> a' ! (p * 4 + 0) = of_size ops (p mod W mod 256) \<and>
                  a' ! (p * 4 + 1) = of_size ops (p div W mod 256) \<and>
                  a' ! (p * 4 + 2) = of_size ops 0 \<and>
                  a' ! (p * 4 + 3) = of_size ops 255"
    and za: "\<And>j. W * W * 4 \<le> j \<Longrightarrow> j < TotalChannelsMipped W \<Longrightarrow> a' ! j = of_size ops 0"
    by auto
  from InitImage_correct [of W b ops] b
  obtain b' where b': "InitImage ops W b = Some b'" "length b' = TotalChannelsMipped W"
    and pb: "\<And>p. p < W * W \<Longrightarrow> b' ! (p * 4 + 0) = of_size ops (p mod W mod 256) \<and>
                  b' ! (p * 4 + 1) = of_size ops (p div W mod 256) \<and>
                  b' ! (p * 4 + 2) = of_size ops 0 \<and>
                  b' ! (p * 4 + 3) = of_size ops 255"
    and zb: "\<And>j. W * W * 4 \<le> j \<Longrightarrow> j < TotalChannelsMipped W \<Longrightarrow> b' ! j = of_size ops 0"
    by auto
  have "a' = b'"
  proof (rule nth_equalityI)
    show "length a' = length b'" by (simp add: a' b')
    fix j assume "j < length a'"
    then have j: "j < TotalChannelsMipped W" by (simp add: a')
    show "a' ! j = b' ! j"
    proof (cases "j < W * W * 4")
      case False
      then show ?thesis using za [of j] zb [of j] j by simp
    next
      case True
      define p where "p = j div 4"
      have p: "p < W * W" using True by (simp add: p_def)
      have "j = p * 4 + j mod 4" by (simp add: p_def)
      moreover have "j mod 4 = 0 \<or> j mod 4 = 1 \<or> j mod 4 = 2 \<or> j mod 4 = 3" by arith
      ultimately have "j = p * 4 + 0 \<or> j = p * 4 + 1 \<or> j = p * 4 + 2 \<or> j = p * 4 + 3"
        by presburger
      then show ?thesis
        using pa [OF p] pb [OF p] by (elim disjE) (simp_all only:)
    qed
  qed
  then show ?thesis by (simp add: a' b')
qed

lemma length_allocate: "length (allocate ops n st) = n"
  by (cases st) simp_all

lemma trial_any: "trial ops W st = trial ops W StdVector"
proof -
  have "InitImage ops W (allocate ops (TotalChannelsMipped W) st)
      = InitImage ops W (allocate ops (TotalChannelsMipped W) StdVector)"
    by (rule InitImage_unique) (rule length_allocate)+
  then show ?thesis by (simp add: trial_def)
qed


subsection \<open>Evaluation on literals\<close>

lemma replicate_numeral: "replicate (numeral k) x = x # replicate (pred_numeral k) x"
  by (simp add: numeral_eq_Suc)

lemma GetMipInfo_2: "GetMipInfo 2 0 = (0, 2)" "GetMipInfo 2 (Suc 0) = (16, 1)"
  by (simp_all add: GetMipInfo_def GetMipInfo_loop.simps)

lemmas MakeMip_eval =
  MakeMip_def MakeMip_channel_def rd_def wr_def for_loop.simps exact_ops_def

lemma GetMipInfo_IMAGE_SIZE_Suc:
  "GetMipInfo IMAGE_SIZE 0 = (0, 512)" "GetMipInfo IMAGE_SIZE (Suc 0) = (1048576, 256)"
  by (simp_all add: IMAGE_SIZE_def GetMipInfo_def GetMipInfo_loop.simps)

lemma GetMipInfo_IMAGE_SIZE:
  "GetMipInfo IMAGE_SIZE (1 - 1) = (0, 512)" "GetMipInfo IMAGE_SIZE 1 = (1048576, 256)"
  by (simp_all add: GetMipInfo_IMAGE_SIZE_Suc)

lemma level1_fits:
  "0 < (256::nat) \<Longrightarrow> 1048576 + 256 * 256 * 4 \<le> TotalChannelsMipped IMAGE_SIZE"
  using GetMipInfo_in_buffer [of IMAGE_SIZE 1] unfolding GetMipInfo_IMAGE_SIZE(2) by simp

lemma GetMipInfo_4:
  "GetMipInfo 4 0 = (0, 4)" "GetMipInfo 4 (Suc 0) = (64, 2)" "GetMipInfo 4 2 = (80, 1)"
  "GetMipInfo 4 (Suc (Suc 0)) = (80, 1)"
  by (simp_all add: GetMipInfo_def GetMipInfo_loop.simps)

lemma sizes_4: "NumMips 4 = 3" "TotalChannelsMipped 4 = 84"
  using NumMips_pow2 [of 2]
  by (simp_all add: TotalChannelsMipped_def TotalPixelsMipped_rec [of 4]
      TotalPixelsMipped_rec [of 2] TotalPixelsMipped_rec [of "Suc 0"] TotalPixelsMipped_rec [of 0])

lemma TotalChannelsMipped_2: "TotalChannelsMipped 2 = 20"
  by (simp add: TotalChannelsMipped_def TotalPixelsMipped_rec [of 2]
      TotalPixelsMipped_rec [of "Suc 0"] TotalPixelsMipped_rec [of 0])

section \<open>Claims about the sizes and the layout\<close>

text \<open>
  C4, as the specification states it, holds for every base width. In the code the offset
  is a \<^verbatim>\<open>size_t\<close>: for the base width \<open>2 ^ 31\<close>, level 0 has offset 0 and
  \<open>(2 ^ 31)\<^sup>2 * 4 = 2 ^ 64\<close> elements, and \<^verbatim>\<open>GetMipInfo(1)\<close> returns the offset 0, not
  \<open>2 ^ 64\<close>: the levels 0 and 1 start at the same element.
\<close>

theorem GetMipInfo64_wraps_counterexample:
  "(0::nat) < NumMips (2 ^ 31) - 1
   \<and> GetMipInfo64 (2 ^ 31) 0 = (0, 2 ^ 31)
   \<and> fst (GetMipInfo64 (2 ^ 31) 0) + (snd (GetMipInfo64 (2 ^ 31) 0))\<^sup>2 * 4 = 2 ^ 64
   \<and> fst (GetMipInfo64 (2 ^ 31) (0 + 1)) = 0"
proof -
  have "(0::nat) < NumMips (2 ^ 31) - 1" using NumMips_pow2 [of 31] by simp
  moreover have "GetMipInfo64 (2 ^ 31) 0 = (0, 2 ^ 31)" by (rule GetMipInfo64_0)
  moreover have "GetMipInfo64 (2 ^ 31) (0 + 1) = (0, 2 ^ 30)"
    by (simp add: GetMipInfo64_Suc GetMipInfo64_0 add64_def mul64_def)
  ultimately show ?thesis by simp
qed

text \<open>
  C4, amended. \<^verbatim>\<open>GetMipInfo(0)\<close> returns the offset 0 and the base width. For a base
  width of at most \<open>2 ^ 30\<close>, where the element count of the chain fits \<^verbatim>\<open>size_t\<close>, the
  levels are laid out without gaps: for every level index \<open>i\<close> before the last one, the
  offset of level \<open>i\<close> plus the \<open>width\<^sup>2 * 4\<close> elements of level \<open>i\<close> is the offset of
  level \<open>i + 1\<close>.
\<close>

theorem GetMipInfo64_contiguous:
  "GetMipInfo64 W 0 = (0, W)
   \<and> (W \<le> 2 ^ 30 \<longrightarrow>
        (\<forall>i. i < NumMips W - 1 \<longrightarrow>
           fst (GetMipInfo64 W i) + (snd (GetMipInfo64 W i))\<^sup>2 * 4 = fst (GetMipInfo64 W (i + 1))))"
  by (simp add: GetMipInfo64_0 GetMipInfo64_eq GetMipInfo_Suc power2_eq_square)

theorem GetMipInfo64_contiguous_witness:
  "GetMipInfo64 4 0 = (0, 4) \<and> (4::nat) \<le> 2 ^ 30 \<and> (1::nat) < NumMips 4 - 1
   \<and> fst (GetMipInfo64 4 1) + (snd (GetMipInfo64 4 1))\<^sup>2 * 4 = fst (GetMipInfo64 4 (1 + 1))
   \<and> GetMipInfo64 4 1 = (64, 2) \<and> GetMipInfo64 4 (1 + 1) = (80, 1)
   \<and> GetMipInfo64 1 0 = (0, 1)"
proof -
  have h1: "(4::nat) \<le> 2 ^ 30" by simp
  have h2: "(1::nat) < NumMips 4 - 1" using NumMips_pow2 [of 2] by simp
  have e: "GetMipInfo64 4 1 = (64, 2)" "GetMipInfo64 4 (1 + 1) = (80, 1)"
    by (simp_all add: GetMipInfo64_def GetMipInfo_loop64.simps add64_def mul64_def)
  from GetMipInfo64_contiguous [of 4] h1 h2
  have "GetMipInfo64 4 0 = (0, 4)"
    and "fst (GetMipInfo64 4 1) + (snd (GetMipInfo64 4 1))\<^sup>2 * 4 = fst (GetMipInfo64 4 (1 + 1))"
    by blast+
  moreover from GetMipInfo64_contiguous [of 1] have "GetMipInfo64 1 0 = (0, 1)" by blast
  ultimately show ?thesis using h1 h2 e by blast
qed

text \<open>
  C5, as the specification states it, holds for every power of two. In the code the count
  is a \<^verbatim>\<open>size_t\<close>: for the base width \<open>2 ^ 31\<close> the sum is 24595658764946068820, which
  is above \<open>2 ^ 64\<close>, and \<^verbatim>\<open>TotalChannelsMipped()\<close> is 6148914691236517204.
\<close>

theorem TotalChannelsMipped64_wraps_counterexample:
  "TotalChannelsMipped64 (2 ^ 31) = 6148914691236517204
   \<and> (\<Sum>k = 0..31. ((2::nat) ^ 31 div 2 ^ k)\<^sup>2 * 4) = 24595658764946068820"
proof -
  have t: "TotalPixelsMipped (2 ^ 31) = 6148914691236517205"
    by (simp add: TotalPixelsMipped_def TotalPixelsMipped_loop.simps)
  have "TotalChannelsMipped64 (2 ^ 31) = 6148914691236517204"
    by (simp add: TotalChannelsMipped64_def TotalPixelsMipped64_def
        TotalPixelsMipped_loop64.simps add64_def mul64_def)
  moreover have "(\<Sum>k = 0..31. ((2::nat) ^ 31 div 2 ^ k)\<^sup>2 * 4) = TotalPixelsMipped (2 ^ 31) * 4"
    unfolding TotalPixelsMipped_pow2 by (simp only: sum_distrib_right)
  ultimately show ?thesis by (simp only: t) simp
qed

text \<open>
  C5, amended. For a base width \<open>W = 2 ^ n\<close> with \<open>n \<le> 30\<close>, where the count fits
  \<^verbatim>\<open>size_t\<close>, the element count of the whole chain that \<^verbatim>\<open>TotalChannelsMipped\<close>
  computes is the sum over \<open>k = 0, \<dots>, n\<close> (that is, up to \<open>log\<^sub>2 W\<close>) of
  \<open>(W div 2 ^ k)\<^sup>2 * 4\<close>.
\<close>

theorem TotalChannelsMipped64_sum:
  assumes "W = 2 ^ n" and "n \<le> 30"
  shows "TotalChannelsMipped64 W = (\<Sum>k = 0..n. (W div 2 ^ k)\<^sup>2 * 4)"
proof -
  have "W \<le> 2 ^ 30" unfolding assms(1) using assms(2) by (intro power_increasing) simp_all
  then have "TotalChannelsMipped64 W = TotalPixelsMipped W * 4"
    by (simp add: TotalChannelsMipped64_eq TotalChannelsMipped_def)
  then show ?thesis
    unfolding assms(1) TotalPixelsMipped_pow2 by (simp only: sum_distrib_right)
qed

theorem TotalChannelsMipped64_sum_witness:
  "IMAGE_SIZE = 2 ^ 9 \<and> (9::nat) \<le> 30
   \<and> TotalChannelsMipped64 IMAGE_SIZE = (\<Sum>k = 0..9. (IMAGE_SIZE div 2 ^ k)\<^sup>2 * 4)
   \<and> TotalChannelsMipped64 IMAGE_SIZE = 1398100"
proof -
  have h1: "IMAGE_SIZE = 2 ^ 9" by (simp add: IMAGE_SIZE_def)
  have h2: "(9::nat) \<le> 30" by simp
  have e: "TotalChannelsMipped64 IMAGE_SIZE = 1398100"
    by (simp add: IMAGE_SIZE_def TotalChannelsMipped64_def TotalPixelsMipped64_def
        TotalPixelsMipped_loop64.simps add64_def mul64_def)
  show ?thesis
    by (intro conjI) (rule h1, rule h2, rule TotalChannelsMipped64_sum [OF h1 h2], rule e)
qed

text \<open>
  C6. For a base width \<open>W = 2 ^ n\<close>, \<open>NumMips\<close> counts \<open>n + 1\<close> levels, which is
  \<open>\<lceil>log\<^sub>2 W\<rceil> + 1\<close>, and the last of them has width 1.
\<close>

theorem NumMips_log2:
  assumes "W = 2 ^ n"
  shows "NumMips W = n + 1
       \<and> int (NumMips W) = \<lceil>log 2 (real W)\<rceil> + 1
       \<and> snd (GetMipInfo W (NumMips W - 1)) = 1"
  unfolding assms by (simp add: NumMips_pow2 GetMipInfo_width)

theorem NumMips_log2_witness:
  "(512::nat) = 2 ^ 9 \<and> NumMips 512 = 9 + 1
   \<and> int (NumMips 512) = \<lceil>log 2 (real (512::nat))\<rceil> + 1
   \<and> snd (GetMipInfo 512 (NumMips 512 - 1)) = 1"
proof -
  have h: "(512::nat) = 2 ^ 9" by simp
  have n: "NumMips 512 = 10"
    using NumMips_pow2 [of 9] by simp
  show ?thesis
    using h NumMips_log2 [OF h] by (simp add: n)
qed

section \<open>Claims about \<^verbatim>\<open>InitImage\<close>\<close>

text \<open>
  C7. On a buffer of \<open>TotalChannelsMipped\<close> elements \<^verbatim>\<open>InitImage\<close> returns without an
  access outside the buffer; afterwards the pixel \<open>(x, y)\<close> of level 0 holds the channels
  \<open>(x mod 256, y mod 256, 0, 255)\<close>, and every element from index \<open>W\<^sup>2 * 4\<close> on, that is
  every element of the levels 1 and up, is zero.
\<close>

theorem InitImage_gradient:
  assumes "length img = TotalChannelsMipped W"
  shows "\<exists>img'. InitImage ops W img = Some img' \<and> length img' = TotalChannelsMipped W
           \<and> (\<forall>x<W. \<forall>y<W.
                  img' ! ((y * W + x) * 4 + 0) = of_size ops (x mod 256) \<and>
                  img' ! ((y * W + x) * 4 + 1) = of_size ops (y mod 256) \<and>
                  img' ! ((y * W + x) * 4 + 2) = of_size ops 0 \<and>
                  img' ! ((y * W + x) * 4 + 3) = of_size ops 255)
           \<and> (\<forall>j. W * W * 4 \<le> j \<and> j < TotalChannelsMipped W \<longrightarrow> img' ! j = of_size ops 0)"
proof -
  from InitImage_correct [of W img ops] assms
  obtain img' where res: "InitImage ops W img = Some img'" "length img' = TotalChannelsMipped W"
    and px: "\<And>p. p < W * W \<Longrightarrow> img' ! (p * 4 + 0) = of_size ops (p mod W mod 256) \<and>
                  img' ! (p * 4 + 1) = of_size ops (p div W mod 256) \<and>
                  img' ! (p * 4 + 2) = of_size ops 0 \<and>
                  img' ! (p * 4 + 3) = of_size ops 255"
    and z: "\<And>j. W * W * 4 \<le> j \<Longrightarrow> j < TotalChannelsMipped W \<Longrightarrow> img' ! j = of_size ops 0"
    by auto
  have "img' ! ((y * W + x) * 4 + 0) = of_size ops (x mod 256) \<and>
        img' ! ((y * W + x) * 4 + 1) = of_size ops (y mod 256) \<and>
        img' ! ((y * W + x) * 4 + 2) = of_size ops 0 \<and>
        img' ! ((y * W + x) * 4 + 3) = of_size ops 255"
    if "x < W" "y < W" for x y
  proof -
    have "y * W + x < W * W" by (rule grid_index_less [OF that(2,1)])
    moreover have "(y * W + x) mod W = x" "(y * W + x) div W = y" using that(1) by simp_all
    ultimately show ?thesis using px [of "y * W + x"] by simp
  qed
  with res z show ?thesis by blast
qed

theorem InitImage_gradient_witness:
  "length [7, 7, 7, 7, 7, 7, 7, 7, 7, 7, 7, 7, 7, 7, 7, 7, 7, 7, 7, 7 :: rat] = TotalChannelsMipped 2
   \<and> (\<exists>img'. InitImage exact_ops 2 [7, 7, 7, 7, 7, 7, 7, 7, 7, 7, 7, 7, 7, 7, 7, 7, 7, 7, 7, 7]
                = Some img'
          \<and> length img' = TotalChannelsMipped 2
          \<and> (\<forall>x<2. \<forall>y<2.
                 img' ! ((y * 2 + x) * 4 + 0) = of_size exact_ops (x mod 256) \<and>
                 img' ! ((y * 2 + x) * 4 + 1) = of_size exact_ops (y mod 256) \<and>
                 img' ! ((y * 2 + x) * 4 + 2) = of_size exact_ops 0 \<and>
                 img' ! ((y * 2 + x) * 4 + 3) = of_size exact_ops 255)
          \<and> (\<forall>j. 2 * 2 * 4 \<le> j \<and> j < TotalChannelsMipped 2 \<longrightarrow> img' ! j = of_size exact_ops 0))
   \<and> InitImage exact_ops 2 [7, 7, 7, 7, 7, 7, 7, 7, 7, 7, 7, 7, 7, 7, 7, 7, 7, 7, 7, 7]
       = Some [0, 0, 0, 255, 1, 0, 0, 255, 0, 1, 0, 255, 1, 1, 0, 255, 0, 0, 0, 0]"
proof -
  have h: "length [7, 7, 7, 7, 7, 7, 7, 7, 7, 7, 7, 7, 7, 7, 7, 7, 7, 7, 7, 7 :: rat]
         = TotalChannelsMipped 2"
    by (simp add: TotalChannelsMipped_2)
  have e: "InitImage exact_ops 2 [7, 7, 7, 7, 7, 7, 7, 7, 7, 7, 7, 7, 7, 7, 7, 7, 7, 7, 7, 7]
       = Some [0, 0, 0, 255, 1, 0, 0, 255, 0, 1, 0, 255, 1, 1, 0, 255, 0, 0, 0, 0]"
    by (simp add: InitImage_def InitImage_pixel_def memset_def wr_def for_loop.simps
        TotalChannelsMipped_2 exact_ops_def replicate_numeral)
  show ?thesis
    by (intro conjI) (rule h, rule InitImage_gradient [OF h], rule e)
qed

section \<open>Claims about the values that \<^verbatim>\<open>MakeMip\<close> stores\<close>

text \<open>
  The lemma \<open>MakeMip_result\<close> above says what \<^verbatim>\<open>MakeMip\<close> stores for the destination
  pixel \<open>(destX, destY)\<close> and the channel \<open>channel\<close>: the \<open>box_value\<close>, which adds up
  \<^verbatim>\<open>image[index] + channel\<close> over the four source pixels, where \<open>index\<close> is the first
  element (the red channel) of the source pixel whatever \<open>channel\<close> is. The source
  comments the expression as the 2x2 box filter of the source pixels, which would read
  \<^verbatim>\<open>image[index + channel]\<close>. The three theorems of this section evaluate the code
  where the two differ.
\<close>

text \<open>
  C1 (the value stored is the average of the same channel of the four source pixels)
  does not hold of the code. In the configured program, after \<^verbatim>\<open>InitImage\<close>, the green
  channels of the level 0 pixels \<open>(0,0)\<close>, \<open>(1,0)\<close>, \<open>(0,1)\<close>, \<open>(1,1)\<close> are \<open>0, 0, 1, 1\<close>,
  with average \<open>1/2\<close>, and their red channels are \<open>0, 1, 0, 1\<close>. The call
  \<^verbatim>\<open>MakeMip(image, 1)\<close> stores \<open>3/2\<close> in the green channel of pixel \<open>(0,0)\<close> of level 1:
  the average of the red channels plus the channel index 1.
\<close>

theorem MakeMip_channel_offset_example:
  "\<exists>img1 img2.
     InitImage exact_ops IMAGE_SIZE (replicate (TotalChannelsMipped IMAGE_SIZE) 0) = Some img1
     \<and> MakeMip exact_ops IMAGE_SIZE img1 1 = Some img2
     \<and> [img1 ! (0 * 4 + 1), img1 ! (1 * 4 + 1), img1 ! (IMAGE_SIZE * 4 + 1),
          img1 ! ((IMAGE_SIZE + 1) * 4 + 1)] = [0, 0, 1, 1]
     \<and> [img1 ! (0 * 4), img1 ! (1 * 4), img1 ! (IMAGE_SIZE * 4), img1 ! ((IMAGE_SIZE + 1) * 4)]
         = [0, 1, 0, 1]
     \<and> img2 ! (fst (GetMipInfo IMAGE_SIZE 1) + 1) = 3 / 2"
proof -
  from InitImage_correct [of IMAGE_SIZE "replicate (TotalChannelsMipped IMAGE_SIZE) 0" exact_ops]
  obtain img1 where i: "InitImage exact_ops IMAGE_SIZE (replicate (TotalChannelsMipped IMAGE_SIZE) 0)
        = Some img1"
    and l: "length img1 = TotalChannelsMipped IMAGE_SIZE"
    and px: "\<And>p. p < IMAGE_SIZE * IMAGE_SIZE \<Longrightarrow>
                  img1 ! (p * 4 + 0) = of_size exact_ops (p mod IMAGE_SIZE mod 256) \<and>
                  img1 ! (p * 4 + 1) = of_size exact_ops (p div IMAGE_SIZE mod 256)"
    by auto
  have fits: "0 < (256::nat) \<Longrightarrow> 1048576 + 256 * 256 * 4 \<le> length img1"
    using level1_fits by (simp add: l)
  from MakeMip_result [OF order_refl GetMipInfo_IMAGE_SIZE fits, of exact_ops]
  obtain img2 where m: "MakeMip exact_ops IMAGE_SIZE img1 1 = Some img2"
    and v: "\<And>destY destX channel. destY < 256 \<Longrightarrow> destX < 256 \<Longrightarrow> channel < 4 \<Longrightarrow>
              img2 ! (1048576 + ((destY * 256 + destX) * 4 + channel))
              = box_value exact_ops img1 0 512 destY destX channel"
    by blast
  have red: "img1 ! 0 = 0" "img1 ! 4 = 1" "img1 ! 2048 = 0" "img1 ! 2052 = 1"
    using px [of 0] px [of 1] px [of 512] px [of 513]
    by (simp_all add: IMAGE_SIZE_def exact_ops_def)
  have green: "img1 ! 1 = 0" "img1 ! 5 = 0" "img1 ! 2049 = 1" "img1 ! 2053 = 1"
    using px [of 0] px [of 1] px [of 512] px [of 513]
    by (simp_all add: IMAGE_SIZE_def exact_ops_def)
  have "img2 ! (1048576 + 1) = 3 / 2"
    using v [of 0 0 1] by (simp add: box_value_def red exact_ops_def)
  with i m red green show ?thesis
    by (simp add: GetMipInfo_IMAGE_SIZE_Suc) (simp add: IMAGE_SIZE_def)
qed

text \<open>
  C2 (the scenario of base width 4). The sizes are as claimed: three levels of widths
  4, 2 and 1, and \<open>(16 + 4 + 1) * 4 = 84\<close> elements. The buffer after \<^verbatim>\<open>InitImage\<close> and
  \<^verbatim>\<open>MakeMips\<close> is the list below, for every storage strategy. Pixel \<open>(0,0)\<close> of level 1
  is its elements 64 to 67, which are \<open>(1/2, 3/2, 5/2, 7/2)\<close>; the averages of the four
  source pixels per channel are \<open>(1/2, 1/2, 0, 255)\<close>.
\<close>

theorem trial_width_4:
  "NumMips 4 = 3
   \<and> [snd (GetMipInfo 4 0), snd (GetMipInfo 4 1), snd (GetMipInfo 4 2)] = [4, 2, 1]
   \<and> TotalChannelsMipped 4 = (16 + 4 + 1) * 4
   \<and> trial exact_ops 4 st = Some
       [0, 0, 0, 255,  1, 0, 0, 255,  2, 0, 0, 255,  3, 0, 0, 255,
        0, 1, 0, 255,  1, 1, 0, 255,  2, 1, 0, 255,  3, 1, 0, 255,
        0, 2, 0, 255,  1, 2, 0, 255,  2, 2, 0, 255,  3, 2, 0, 255,
        0, 3, 0, 255,  1, 3, 0, 255,  2, 3, 0, 255,  3, 3, 0, 255,
        1 / 2, 3 / 2, 5 / 2, 7 / 2,  5 / 2, 7 / 2, 9 / 2, 11 / 2,
        1 / 2, 3 / 2, 5 / 2, 7 / 2,  5 / 2, 7 / 2, 9 / 2, 11 / 2,
        3 / 2, 5 / 2, 7 / 2, 9 / 2]"
proof -
  have "trial exact_ops 4 StdVector = Some
       [0, 0, 0, 255,  1, 0, 0, 255,  2, 0, 0, 255,  3, 0, 0, 255,
        0, 1, 0, 255,  1, 1, 0, 255,  2, 1, 0, 255,  3, 1, 0, 255,
        0, 2, 0, 255,  1, 2, 0, 255,  2, 2, 0, 255,  3, 2, 0, 255,
        0, 3, 0, 255,  1, 3, 0, 255,  2, 3, 0, 255,  3, 3, 0, 255,
        1 / 2, 3 / 2, 5 / 2, 7 / 2,  5 / 2, 7 / 2, 9 / 2, 11 / 2,
        1 / 2, 3 / 2, 5 / 2, 7 / 2,  5 / 2, 7 / 2, 9 / 2, 11 / 2,
        3 / 2, 5 / 2, 7 / 2, 9 / 2]"
    by (simp add: trial_def InitImage_def InitImage_pixel_def memset_def MakeMips_def
        MakeMip_eval GetMipInfo_4 sizes_4 replicate_numeral)
  then show ?thesis
    by (simp add: trial_any [of exact_ops 4 st] sizes_4 GetMipInfo_4)
qed

text \<open>
  C3 (a constant source region is reproduced) does not hold of the code. On a buffer of
  the configured size whose elements all are 5, the call \<^verbatim>\<open>MakeMip(image, 1)\<close> stores
  \<open>(5, 6, 7, 8)\<close> in pixel \<open>(0,0)\<close> of level 1: the constant plus the channel index.
\<close>

theorem MakeMip_constant_example:
  "\<exists>img'. MakeMip exact_ops IMAGE_SIZE (replicate (TotalChannelsMipped IMAGE_SIZE) 5) 1 = Some img'
     \<and> [img' ! (fst (GetMipInfo IMAGE_SIZE 1) + 0), img' ! (fst (GetMipInfo IMAGE_SIZE 1) + 1),
         img' ! (fst (GetMipInfo IMAGE_SIZE 1) + 2), img' ! (fst (GetMipInfo IMAGE_SIZE 1) + 3)]
        = [5, 6, 7, 8]"
proof -
  define img :: "rat list" where "img = replicate (TotalChannelsMipped IMAGE_SIZE) 5"
  have fits: "0 < (256::nat) \<Longrightarrow> 1048576 + 256 * 256 * 4 \<le> length img"
    using level1_fits by (simp add: img_def)
  from MakeMip_result [OF order_refl GetMipInfo_IMAGE_SIZE fits, of exact_ops]
  obtain img' where m: "MakeMip exact_ops IMAGE_SIZE img 1 = Some img'"
    and v: "\<And>destY destX channel. destY < 256 \<Longrightarrow> destX < 256 \<Longrightarrow> channel < 4 \<Longrightarrow>
              img' ! (1048576 + ((destY * 256 + destX) * 4 + channel))
              = box_value exact_ops img 0 512 destY destX channel"
    by blast
  have src: "img ! 0 = 5" "img ! 4 = 5" "img ! 2048 = 5" "img ! 2052 = 5"
    using level1_fits by (simp_all add: img_def)
  have "img' ! (1048576 + 0) = 5" "img' ! (1048576 + 1) = 6"
       "img' ! (1048576 + 2) = 7" "img' ! (1048576 + 3) = 8"
    using v [of 0 0 0] v [of 0 0 1] v [of 0 0 2] v [of 0 0 3]
    by (simp_all add: box_value_def src exact_ops_def)
  with m show ?thesis
    by (simp add: GetMipInfo_IMAGE_SIZE_Suc img_def)
qed

section \<open>Claims about the effect of \<^verbatim>\<open>MakeMip\<close> on the buffer\<close>

text \<open>
  C8, as the specification states it, says that \<^verbatim>\<open>MakeMip\<close> reads no region but the
  target level. The two buffers below hold the same target level (the elements 16 to 19
  of a chain of base width 2) and differ in element 0 alone, which lies in level 0; the
  target levels that \<^verbatim>\<open>MakeMip\<close> leaves differ. So element 0 is read.
\<close>

theorem MakeMip_reads_source_counterexample:
  "MakeMip exact_ops 2 [0, 0, 0, 0, 0, 0, 0, 0, 0, 0, 0, 0, 0, 0, 0, 0, 7, 7, 7, 7] 1
     = Some [0, 0, 0, 0, 0, 0, 0, 0, 0, 0, 0, 0, 0, 0, 0, 0, 0, 1, 2, 3]
   \<and> MakeMip exact_ops 2 [4, 0, 0, 0, 0, 0, 0, 0, 0, 0, 0, 0, 0, 0, 0, 0, 7, 7, 7, 7] 1
     = Some [4, 0, 0, 0, 0, 0, 0, 0, 0, 0, 0, 0, 0, 0, 0, 0, 1, 2, 3, 4]"
  by (simp add: MakeMip_eval GetMipInfo_2)

text \<open>
  C8, amended. For a level index \<open>i \<ge> 1\<close> and a buffer that holds the target level,
  \<^verbatim>\<open>MakeMip\<close> returns, keeps the length, and leaves every element outside the target
  region \<open>[destOffset, destOffset + destWidth\<^sup>2 * 4)\<close> as it was. What it stores there is
  determined by the region of the source level \<open>i - 1\<close> alone: on any other buffer of the
  same length that agrees with this one on the source region, the call stores the same
  target level. Hence the call reads the source level and nothing else, and in particular
  not the target level.
\<close>

theorem MakeMip_frame:
  assumes idx: "1 \<le> i"
    and src: "GetMipInfo W (i - 1) = (srcOffset, srcWidth)"
    and dest: "GetMipInfo W i = (destOffset, destWidth)"
    and fits: "0 < destWidth \<longrightarrow> destOffset + destWidth\<^sup>2 * 4 \<le> length img"
  shows "\<exists>img'. MakeMip ops W img i = Some img' \<and> length img' = length img
           \<and> (\<forall>j<length img. j < destOffset \<or> destOffset + destWidth\<^sup>2 * 4 \<le> j
                  \<longrightarrow> img' ! j = img ! j)
           \<and> (\<forall>img2. length img2 = length img
                  \<and> (\<forall>j. srcOffset \<le> j \<and> j < srcOffset + srcWidth\<^sup>2 * 4 \<longrightarrow> img2 ! j = img ! j)
                  \<longrightarrow> (\<exists>img2'. MakeMip ops W img2 i = Some img2'
                         \<and> (\<forall>j. destOffset \<le> j \<and> j < destOffset + destWidth\<^sup>2 * 4
                                \<longrightarrow> img2' ! j = img' ! j)))"
proof -
  have fits': "0 < destWidth \<Longrightarrow> destOffset + destWidth * destWidth * 4 \<le> length img"
    using fits by (simp add: power2_eq_square)
  from MakeMip_result [OF idx src dest fits', of ops]
  obtain img' where res: "MakeMip ops W img i = Some img'" and len: "length img' = length img"
    and frame: "\<forall>j<length img. j < destOffset \<or> destOffset + destWidth * destWidth * 4 \<le> j
                  \<longrightarrow> img' ! j = img ! j"
    and vals: "\<And>destY destX channel. destY < destWidth \<Longrightarrow> destX < destWidth \<Longrightarrow> channel < 4 \<Longrightarrow>
                  img' ! (destOffset + ((destY * destWidth + destX) * 4 + channel))
                  = box_value ops img srcOffset srcWidth destY destX channel"
    by blast
  have g2: "2 * destWidth \<le> srcWidth"
    using GetMipInfo_pred(2) [OF idx, of W] unfolding src dest by simp
  have dep: "\<exists>img2'. MakeMip ops W img2 i = Some img2'
                 \<and> (\<forall>j. destOffset \<le> j \<and> j < destOffset + destWidth\<^sup>2 * 4
                        \<longrightarrow> img2' ! j = img' ! j)"
    if l2: "length img2 = length img"
      and agree: "\<forall>j. srcOffset \<le> j \<and> j < srcOffset + srcWidth\<^sup>2 * 4 \<longrightarrow> img2 ! j = img ! j"
    for img2
  proof -
    have fits2: "0 < destWidth \<Longrightarrow> destOffset + destWidth * destWidth * 4 \<le> length img2"
      using fits' l2 by simp
    from MakeMip_result [OF idx src dest fits2, of ops]
    obtain img2' where res2: "MakeMip ops W img2 i = Some img2'"
      and vals2: "\<And>destY destX channel. destY < destWidth \<Longrightarrow> destX < destWidth \<Longrightarrow> channel < 4 \<Longrightarrow>
                  img2' ! (destOffset + ((destY * destWidth + destX) * 4 + channel))
                  = box_value ops img2 srcOffset srcWidth destY destX channel"
      by blast
    have "img2' ! j = img' ! j" if j: "destOffset \<le> j" "j < destOffset + destWidth\<^sup>2 * 4" for j
    proof -
      define q where "q = j - destOffset"
      have q: "q < destWidth * destWidth * 4" and jq: "j = destOffset + q"
        using j by (simp_all add: q_def power2_eq_square)
      note e = dest_index_encode [OF q]
      have "box_value ops img2 srcOffset srcWidth (q div 4 div destWidth) (q div 4 mod destWidth) (q mod 4)
          = box_value ops img srcOffset srcWidth (q div 4 div destWidth) (q div 4 mod destWidth) (q mod 4)"
        using agree by (intro box_value_cong [OF _ e(2,3) g2]) (simp add: power2_eq_square)
      then have "img2' ! (destOffset + (((q div 4 div destWidth) * destWidth + q div 4 mod destWidth) * 4 + q mod 4))
          = img' ! (destOffset + (((q div 4 div destWidth) * destWidth + q div 4 mod destWidth) * 4 + q mod 4))"
        by (simp only: vals [OF e(2,3,4)] vals2 [OF e(2,3,4)])
      then show ?thesis
        unfolding jq using e(1) by simp
    qed
    with res2 show ?thesis by blast
  qed
  from res len frame dep show ?thesis
    by (simp add: power2_eq_square)
qed

theorem MakeMip_frame_witness:
  "(1::nat) \<le> 1 \<and> GetMipInfo 2 (1 - 1) = (0, 2) \<and> GetMipInfo 2 1 = (16, 1)
   \<and> 16 + 1\<^sup>2 * 4 \<le> length [0, 0, 0, 0, 4, 0, 0, 0, 8, 0, 0, 0, 12, 0, 0, 0, 7, 7, 7, 7 :: rat]
   \<and> (\<exists>img'. MakeMip exact_ops 2 [0, 0, 0, 0, 4, 0, 0, 0, 8, 0, 0, 0, 12, 0, 0, 0, 7, 7, 7, 7] 1
                = Some img'
          \<and> length img' = length [0, 0, 0, 0, 4, 0, 0, 0, 8, 0, 0, 0, 12, 0, 0, 0, 7, 7, 7, 7 :: rat]
          \<and> (\<forall>j<length [0, 0, 0, 0, 4, 0, 0, 0, 8, 0, 0, 0, 12, 0, 0, 0, 7, 7, 7, 7 :: rat].
                 j < 16 \<or> 16 + 1\<^sup>2 * 4 \<le> j
                 \<longrightarrow> img' ! j = [0, 0, 0, 0, 4, 0, 0, 0, 8, 0, 0, 0, 12, 0, 0, 0, 7, 7, 7, 7] ! j)
          \<and> (\<forall>img2. length img2 = length [0, 0, 0, 0, 4, 0, 0, 0, 8, 0, 0, 0, 12, 0, 0, 0, 7, 7, 7, 7 :: rat]
                 \<and> (\<forall>j. 0 \<le> j \<and> j < 0 + 2\<^sup>2 * 4
                        \<longrightarrow> img2 ! j = [0, 0, 0, 0, 4, 0, 0, 0, 8, 0, 0, 0, 12, 0, 0, 0, 7, 7, 7, 7] ! j)
                 \<longrightarrow> (\<exists>img2'. MakeMip exact_ops 2 img2 1 = Some img2'
                        \<and> (\<forall>j. 16 \<le> j \<and> j < 16 + 1\<^sup>2 * 4 \<longrightarrow> img2' ! j = img' ! j))))
   \<and> MakeMip exact_ops 2 [0, 0, 0, 0, 4, 0, 0, 0, 8, 0, 0, 0, 12, 0, 0, 0, 7, 7, 7, 7] 1
       = Some [0, 0, 0, 0, 4, 0, 0, 0, 8, 0, 0, 0, 12, 0, 0, 0, 6, 7, 8, 9]"
proof -
  have h1: "(1::nat) \<le> 1" by simp
  have h2: "GetMipInfo 2 (1 - 1) = (0, 2)" by (simp add: GetMipInfo_2)
  have h3: "GetMipInfo 2 1 = (16, 1)" by (simp add: GetMipInfo_2)
  have h4: "16 + 1\<^sup>2 * 4 \<le> length [0, 0, 0, 0, 4, 0, 0, 0, 8, 0, 0, 0, 12, 0, 0, 0, 7, 7, 7, 7 :: rat]"
    by simp
  then have h4': "0 < (1::nat) \<longrightarrow>
      16 + 1\<^sup>2 * 4 \<le> length [0, 0, 0, 0, 4, 0, 0, 0, 8, 0, 0, 0, 12, 0, 0, 0, 7, 7, 7, 7 :: rat]"
    by blast
  have e: "MakeMip exact_ops 2 [0, 0, 0, 0, 4, 0, 0, 0, 8, 0, 0, 0, 12, 0, 0, 0, 7, 7, 7, 7] 1
       = Some [0, 0, 0, 0, 4, 0, 0, 0, 8, 0, 0, 0, 12, 0, 0, 0, 6, 7, 8, 9]"
    by (simp add: MakeMip_eval GetMipInfo_2)
  show ?thesis
    by (intro conjI) (rule h1, rule h2, rule h3, rule h4, rule MakeMip_frame [OF h1 h2 h3 h4'], rule e)
qed

text \<open>
  C9. For a base width that is a power of two (as the configured 512 is) and a buffer of
  exactly \<open>TotalChannelsMipped\<close> elements, \<^verbatim>\<open>InitImage\<close> and then \<^verbatim>\<open>MakeMips\<close> return a
  buffer: no read or write of theirs falls outside \<open>[0, TotalChannelsMipped)\<close>, since such
  an access is the result \<open>None\<close>. The same holds for each single call of \<^verbatim>\<open>MakeMip\<close>
  with a level index from 1 to \<open>NumMips - 1\<close> on any buffer of that length.
\<close>

theorem accesses_in_bounds:
  assumes "W = 2 ^ n" and "length img = TotalChannelsMipped W"
  shows "\<exists>img' img''. InitImage ops W img = Some img' \<and> MakeMips ops W img' = Some img''
           \<and> (\<forall>mipIndex b. 1 \<le> mipIndex \<and> mipIndex < NumMips W \<and> length b = TotalChannelsMipped W
                  \<longrightarrow> (\<exists>b'. MakeMip ops W b mipIndex = Some b'))"
proof -
  from InitImage_correct [of W img ops] assms(2)
  obtain img' where i: "InitImage ops W img = Some img'" and l: "length img' = TotalChannelsMipped W"
    by auto
  from MakeMips_total [of W img' ops] l
  obtain img'' where m: "MakeMips ops W img' = Some img''" by auto
  have "\<exists>b'. MakeMip ops W b mipIndex = Some b'"
    if "1 \<le> mipIndex" "length b = TotalChannelsMipped W" for mipIndex b
    using MakeMip_length [OF that(1), of W b ops] that(2) by auto
  with i m show ?thesis by blast
qed

theorem accesses_in_bounds_witness:
  "IMAGE_SIZE = 2 ^ 9
   \<and> length (replicate (TotalChannelsMipped IMAGE_SIZE) (0::rat)) = TotalChannelsMipped IMAGE_SIZE
   \<and> (\<exists>img' img''. InitImage exact_ops IMAGE_SIZE (replicate (TotalChannelsMipped IMAGE_SIZE) 0) = Some img'
          \<and> MakeMips exact_ops IMAGE_SIZE img' = Some img''
          \<and> (\<forall>mipIndex b. 1 \<le> mipIndex \<and> mipIndex < NumMips IMAGE_SIZE
                 \<and> length b = TotalChannelsMipped IMAGE_SIZE
                 \<longrightarrow> (\<exists>b'. MakeMip exact_ops IMAGE_SIZE b mipIndex = Some b')))"
proof -
  have h1: "IMAGE_SIZE = 2 ^ 9" by (simp add: IMAGE_SIZE_def)
  have h2: "length (replicate (TotalChannelsMipped IMAGE_SIZE) (0::rat)) = TotalChannelsMipped IMAGE_SIZE"
    by simp
  show ?thesis
    by (intro conjI) (rule h1, rule h2, rule accesses_in_bounds [OF h1 h2])
qed

section \<open>Claims about the trials of \<^verbatim>\<open>main\<close>\<close>


end
